theory Spec2Isabelle
  imports Complex_Main "HOL-Library.AList" "HOL-Library.Log_Nat"
begin

section \<open>JavaScript values\<close>

text \<open>
  Frames, payloads and state bags are untyped JavaScript objects in the collector.
  They are embedded as JSON values; numbers are exact rationals (no NaN, no rounding),
  and an object is its list of own properties in insertion order.
\<close>

datatype json =
    JUndefined
  | JNull
  | JBool bool
  | JNum rat
  | JStr string
  | JArr "json list"
  | JObj "(string \<times> json) list"

type_synonym obj = "(string \<times> json) list"

text \<open>JavaScript truthiness, as tested by \<open>if (x)\<close>, \<open>x && y\<close> and \<open>x || y\<close>.\<close>

fun truthy :: "json \<Rightarrow> bool" where
  "truthy JUndefined = False"
| "truthy JNull = False"
| "truthy (JBool b) = b"
| "truthy (JNum r) = (r \<noteq> 0)"
| "truthy (JStr s) = (s \<noteq> [])"
| "truthy (JArr xs) = True"
| "truthy (JObj kvs) = True"

text \<open>\<open>x == null\<close>: reading a property of such a value throws a TypeError.\<close>

fun nullish :: "json \<Rightarrow> bool" where
  "nullish JUndefined = True"
| "nullish JNull = True"
| "nullish j = False"

text \<open>
  \<open>x.name\<close> for a value that is not nullish. The collector reads only the property names
  type, event, ok, payload, error, id, message, snapshot, presence, sessions, key, agents
  and agentId, which are undefined on every primitive and on arrays.
\<close>

fun getp :: "json \<Rightarrow> string \<Rightarrow> json" where
  "getp (JObj kvs) name = (case map_of kvs name of Some v \<Rightarrow> v | None \<Rightarrow> JUndefined)"
| "getp j name = JUndefined"

text \<open>\<open>x?.name\<close>\<close>

definition optp :: "json \<Rightarrow> string \<Rightarrow> json" where
  "optp j name = (if nullish j then JUndefined else getp j name)"

fun isArray :: "json \<Rightarrow> bool" where
  "isArray (JArr xs) = True"
| "isArray j = False"

fun elems :: "json \<Rightarrow> json list" where
  "elems (JArr xs) = xs"
| "elems j = []"

text \<open>\<open>String(n)\<close> for a non-negative integer: its decimal digits.\<close>

definition digit_char :: "nat \<Rightarrow> char" where
  "digit_char d = char_of (48 + d)"

fun String_nat :: "nat \<Rightarrow> string" where
  "String_nat n = (if n < 10 then [digit_char n] else String_nat (n div 10) @ [digit_char (n mod 10)])"

declare String_nat.simps [simp del]

text \<open>
  The own enumerable properties copied by \<open>{...x}\<close>: those of an object, the indexed
  elements of an array, the indexed characters of a string, none for any other value.
\<close>

definition indexed :: "json list \<Rightarrow> obj" where
  "indexed xs = map (\<lambda>(i, x). (String_nat i, x)) (zip [0 ..< length xs] xs)"

fun spread :: "json \<Rightarrow> obj" where
  "spread (JObj kvs) = kvs"
| "spread (JArr xs) = indexed xs"
| "spread (JStr s) = indexed (map (\<lambda>ch. JStr [ch]) s)"
| "spread j = []"

text \<open>\<open>{...current, ...partial}\<close>: a shallow merge, the later value of a key winning.\<close>

definition merge_obj :: "obj \<Rightarrow> obj \<Rightarrow> obj" where
  "merge_obj current partial = fold (\<lambda>(k, v). AList.update k v) partial current"

section \<open>The collector's data\<close>

text \<open>
  One entry of \<open>config.agents\<close>. The port is kept as the text that the template string
  of \<open>loadConfig\<close> renders; name, emoji and machine are passed through unread.
\<close>

record agent =
  a_id :: string
  a_gatewayAgentId :: "string option"
  a_host :: string
  a_port :: string
  a_token :: string
  a_name :: json
  a_emoji :: json
  a_machine :: json

record config =
  cfg_agents :: "agent list"

datatype gw_state = disconnected | connecting | waiting_challenge | connected | error_st

datatype ready_state = CONNECTING | OPEN | CLOSING | CLOSED

text \<open>A socket: its ready state and the frames written to it so far.\<close>

record websocket =
  readyState :: ready_state
  sent :: "json list"

text \<open>
  A gateway object. \<open>gw_ref\<close> is the identity of the object: the socket callbacks and
  the poll continuation hold the object itself, not its key, and a configuration reload
  can register a new object under the key of a removed one.
\<close>

record gateway =
  gw_ref :: nat
  gw_host :: string
  gw_port :: string
  gw_token :: string
  gw_ws :: "websocket option"
  gw_state :: gw_state
  reconnectTimer :: "nat option"
  gw_agents :: "agent list"
  rawData :: obj

datatype timer_action = Reconnect string | RequestTimeout string | PollGateway string

record timer =
  t_delay :: nat
  t_action :: timer_action

datatype event = Update string "obj option" bool | HostMetrics json

text \<open>
  The collector. Every JavaScript \<open>Map\<close> is an association list in insertion order.
  \<open>timers\<close> holds the armed timeouts by handle, \<open>emitted\<close> the events emitted and
  \<open>resolved\<close> the promises of \<open>_call\<close> resolved so far, both in order.
\<close>

record collector =
  config :: "config option"
  agents :: "(string \<times> agent) list"
  gateways :: "(string \<times> gateway) list"
  agentGateway :: "(string \<times> string) list"
  state :: "(string \<times> obj) list"
  hostMetrics :: json
  reqCounter :: nat
  pending :: "(string \<times> nat) list"
  timers :: "(nat \<times> timer) list"
  nextTimer :: nat
  nextRef :: nat
  emitted :: "event list"
  resolved :: "(string \<times> json) list"

definition new_collector :: collector where
  "new_collector = \<lparr> config = None, agents = [], gateways = [], agentGateway = [], state = [],
     hostMetrics = JObj [], reqCounter = 0, pending = [], timers = [], nextTimer = 0,
     nextRef = 0, emitted = [], resolved = [] \<rparr>"

text \<open>\<open>setTimeout\<close> and \<open>clearTimeout\<close>\<close>

definition setTimeout :: "timer_action \<Rightarrow> nat \<Rightarrow> collector \<Rightarrow> nat \<times> collector" where
  "setTimeout act ms c =
     (nextTimer c,
      c\<lparr> timers := timers c @ [(nextTimer c, \<lparr> t_delay = ms, t_action = act \<rparr>)],
         nextTimer := Suc (nextTimer c) \<rparr>)"

definition clearTimeout :: "nat \<Rightarrow> collector \<Rightarrow> collector" where
  "clearTimeout h c = c\<lparr> timers := AList.delete h (timers c) \<rparr>"

section \<open>State updates\<close>

definition updateState :: "string \<Rightarrow> obj \<Rightarrow> collector \<Rightarrow> collector" where
  "updateState i partial c =
     (let current = (case map_of (state c) i of Some s \<Rightarrow> s | None \<Rightarrow> []);
          new = merge_obj current partial
      in c\<lparr> state := AList.update i new (state c),
            emitted := emitted c @ [Update i (Some new) False] \<rparr>)"

text \<open>\<open>for (const agent of gw.agents) this._updateState(agent.id, partial)\<close>\<close>

definition updateAll :: "agent list \<Rightarrow> obj \<Rightarrow> collector \<Rightarrow> collector" where
  "updateAll as partial c = fold (\<lambda>a. updateState (a_id a) partial) as c"

section \<open>loadConfig\<close>

definition gwKeyOf :: "agent \<Rightarrow> string" where
  "gwKeyOf a = a_host a @ '':'' @ a_port a @ '':'' @ take 8 (a_token a)"

definition agentKeyOf :: "agent \<Rightarrow> string" where
  "agentKeyOf a = (case a_gatewayAgentId a of
       Some g \<Rightarrow> if g = [] then a_id a else g
     | None \<Rightarrow> a_id a)"

definition pruneStep :: "string list \<Rightarrow> string \<Rightarrow> collector \<Rightarrow> collector" where
  "pruneStep currentIds i c =
     (if i \<in> set currentIds then c
      else c\<lparr> agents := AList.delete i (agents c),
              state := AList.delete i (state c),
              agentGateway := AList.delete i (agentGateway c),
              emitted := emitted c @ [Update i None True] \<rparr>)"

definition newGateway :: "nat \<Rightarrow> agent \<Rightarrow> gateway" where
  "newGateway r a = \<lparr> gw_ref = r, gw_host = a_host a, gw_port = a_port a, gw_token = a_token a,
     gw_ws = None, gw_state = disconnected, reconnectTimer = None, gw_agents = [], rawData = [] \<rparr>"

definition initialState :: "agent \<Rightarrow> obj" where
  "initialState a =
     [(''id'', JStr (a_id a)), (''gatewayAgentId'', JStr (agentKeyOf a)),
      (''name'', a_name a), (''emoji'', a_emoji a), (''machine'', a_machine a),
      (''online'', JBool False), (''lastSeen'', JNull), (''health'', JNull),
      (''sessions'', JNull), (''usage'', JNull), (''heartbeat'', JNull),
      (''presence'', JNull), (''channels'', JNull), (''cron'', JNull), (''error'', JNull)]"

definition addAgent :: "agent \<Rightarrow> collector \<Rightarrow> collector" where
  "addAgent a c =
     (let gwKey = gwKeyOf a;
          c1 = c\<lparr> agents := AList.update (a_id a) a (agents c),
                  agentGateway := AList.update (a_id a) gwKey (agentGateway c) \<rparr>;
          c2 = (if map_of (gateways c1) gwKey = None
                then c1\<lparr> gateways := AList.update gwKey (newGateway (nextRef c1) a) (gateways c1),
                         nextRef := Suc (nextRef c1) \<rparr>
                else c1);
          c3 = c2\<lparr> gateways :=
                  AList.map_entry gwKey (\<lambda>gw. gw\<lparr> gw_agents := gw_agents gw @ [a] \<rparr>) (gateways c2) \<rparr>
      in if map_of (state c3) (a_id a) = None
         then c3\<lparr> state := AList.update (a_id a) (initialState a) (state c3) \<rparr>
         else c3)"

text \<open>
  The loop that removes the gateways left without agents. It closes the socket of the
  object it removes, which nothing reads afterwards, and clears its reconnect timer.
\<close>

definition removeStep :: "string \<times> gateway \<Rightarrow> collector \<Rightarrow> collector" where
  "removeStep kg c =
     (if gw_agents (snd kg) = []
      then (let c1 = (case reconnectTimer (snd kg) of Some h \<Rightarrow> clearTimeout h c | None \<Rightarrow> c)
            in c1\<lparr> gateways := AList.delete (fst kg) (gateways c1) \<rparr>)
      else c)"

definition loadBody :: "config \<Rightarrow> collector \<Rightarrow> collector" where
  "loadBody cfg c =
     (let c0 = c\<lparr> config := Some cfg \<rparr>;
          currentIds = map a_id (cfg_agents cfg);
          c1 = fold (pruneStep currentIds) (map fst (agents c0)) c0;
          c2 = c1\<lparr> gateways := map (\<lambda>(k, gw). (k, gw\<lparr> gw_agents := [] \<rparr>)) (gateways c1) \<rparr>;
          c3 = fold addAgent (cfg_agents cfg) c2
      in fold removeStep (gateways c3) c3)"

datatype error = ConfigUnreadable

text \<open>
  \<open>loadConfig\<close>: the argument is the parsed configuration file, or None when reading or
  parsing it throws, which happens before anything is changed.
\<close>

definition loadConfig :: "config option \<Rightarrow> collector \<Rightarrow> error + collector" where
  "loadConfig file c = (case file of None \<Rightarrow> Inl ConfigUnreadable | Some cfg \<Rightarrow> Inr (loadBody cfg c))"

section \<open>getSnapshot\<close>

record snapshot =
  snap_ts :: int
  snap_agents :: "(string \<times> obj) list"
  snap_host :: json

text \<open>\<open>now\<close> is the reading of \<open>Date.now()\<close> at the call.\<close>

definition getSnapshot :: "int \<Rightarrow> collector \<Rightarrow> snapshot" where
  "getSnapshot now c = \<lparr> snap_ts = now, snap_agents = state c, snap_host = hostMetrics c \<rparr>"

section \<open>Sending requests\<close>

definition scheduleReconnect :: "string \<Rightarrow> collector \<Rightarrow> collector" where
  "scheduleReconnect gwKey c =
     (case map_of (gateways c) gwKey of
        None \<Rightarrow> c
      | Some gw \<Rightarrow>
          (let c1 = (case reconnectTimer gw of Some h \<Rightarrow> clearTimeout h c | None \<Rightarrow> c);
               (h', c2) = setTimeout (Reconnect gwKey) 10000 c1
           in c2\<lparr> gateways :=
                  AList.map_entry gwKey (\<lambda>g. g\<lparr> reconnectTimer := Some h' \<rparr>) (gateways c2) \<rparr>))"

definition sendFrame :: "string \<Rightarrow> json \<Rightarrow> collector \<Rightarrow> collector" where
  "sendFrame gwKey frame c =
     (case map_of (gateways c) gwKey of
        None \<Rightarrow> c
      | Some gw \<Rightarrow>
          (case gw_ws gw of
             None \<Rightarrow> c
           | Some ws \<Rightarrow>
               if readyState ws \<noteq> OPEN then c
               else c\<lparr> gateways :=
                      AList.map_entry gwKey
                        (\<lambda>g. g\<lparr> gw_ws := Some (ws\<lparr> sent := sent ws @ [frame] \<rparr>) \<rparr>) (gateways c) \<rparr>))"

text \<open>
  \<open>_call\<close> returns a promise: it is either resolved at once, or left to the response
  or to the timeout of the request id it was filed under.
\<close>

datatype call_result = Resolved json | Awaiting string

definition call :: "string \<Rightarrow> string \<Rightarrow> json \<Rightarrow> collector \<Rightarrow> call_result \<times> collector" where
  "call gwKey method params c =
     (case map_of (gateways c) gwKey of
        None \<Rightarrow> (Resolved JNull, c)
      | Some gw \<Rightarrow>
          (case gw_ws gw of
             None \<Rightarrow> (Resolved JNull, c)
           | Some ws \<Rightarrow>
               if readyState ws \<noteq> OPEN \<or> gw_state gw \<noteq> connected then (Resolved JNull, c)
               else
                 (let c1 = c\<lparr> reqCounter := Suc (reqCounter c) \<rparr>;
                      reqId = String_nat (reqCounter c1);
                      c2 = sendFrame gwKey
                             (JObj [(''type'', JStr ''req''), (''id'', JStr reqId),
                                    (''method'', JStr method),
                                    (''params'', if truthy params then params else JObj [])]) c1;
                      (h, c3) = setTimeout (RequestTimeout reqId) 10000 c2
                  in (Awaiting reqId, c3\<lparr> pending := AList.update reqId h (pending c3) \<rparr>))))"

text \<open>The timeout armed by \<open>_call\<close> fires.\<close>

definition requestTimeout :: "string \<Rightarrow> collector \<Rightarrow> collector" where
  "requestTimeout reqId c =
     c\<lparr> pending := AList.delete reqId (pending c), resolved := resolved c @ [(reqId, JNull)] \<rparr>"

section \<open>Inbound frames\<close>

datatype outcome = Returned | Threw

definition connectFrame :: "string \<Rightarrow> string \<Rightarrow> json" where
  "connectFrame reqId token =
     JObj [(''type'', JStr ''req''), (''id'', JStr reqId), (''method'', JStr ''connect''),
           (''params'', JObj
              [(''minProtocol'', JNum 3), (''maxProtocol'', JNum 3),
               (''client'', JObj [(''id'', JStr ''openclaw-probe''), (''version'', JStr ''2.0.0''),
                                  (''platform'', JStr ''linux''), (''mode'', JStr ''backend'')]),
               (''auth'', JObj [(''token'', JStr token)])])]"

definition setGwState :: "string \<Rightarrow> gw_state \<Rightarrow> collector \<Rightarrow> collector" where
  "setGwState gwKey s c =
     c\<lparr> gateways := AList.map_entry gwKey (\<lambda>g. g\<lparr> gw_state := s \<rparr>) (gateways c) \<rparr>"

text \<open>\<open>this._pending.has(msg.id)\<close>: the keys of the map are strings.\<close>

fun pendingTimer :: "(string \<times> nat) list \<Rightarrow> json \<Rightarrow> nat option" where
  "pendingTimer p (JStr s) = map_of p s"
| "pendingTimer p j = None"

fun strOf :: "json \<Rightarrow> string" where
  "strOf (JStr s) = s"
| "strOf j = []"

definition handleEvent :: "string \<Rightarrow> json \<Rightarrow> int \<Rightarrow> collector \<Rightarrow> outcome \<times> collector" where
  "handleEvent gwKey msg now c =
     (let gw = map_of (gateways c) gwKey in
      if getp msg ''event'' = JStr ''connect.challenge'' then
        (let c1 = c\<lparr> reqCounter := Suc (reqCounter c) \<rparr> in
         case gw of
           None \<Rightarrow> (Threw, c1)
         | Some g \<Rightarrow>
             (Returned, sendFrame gwKey (connectFrame (String_nat (reqCounter c1)) (gw_token g)) c1))
      else if getp msg ''event'' = JStr ''health'' then
        (case gw of
           None \<Rightarrow> (Threw, c)
         | Some g \<Rightarrow>
             (Returned, updateAll (gw_agents g)
                [(''health'', getp msg ''payload''), (''lastSeen'', JNum (of_int now))] c))
      else if getp msg ''event'' = JStr ''presence'' then
        (case gw of
           None \<Rightarrow> (Threw, c)
         | Some g \<Rightarrow>
             (Returned, updateAll (gw_agents g)
                [(''presence'', optp (getp msg ''payload'') ''presence''),
                 (''lastSeen'', JNum (of_int now))] c))
      else if getp msg ''event'' = JStr ''tick'' then
        (case gw of
           None \<Rightarrow> (Threw, c)
         | Some g \<Rightarrow> (Returned, updateAll (gw_agents g) [(''lastSeen'', JNum (of_int now))] c))
      else (Returned, c))"

definition handleRes :: "string \<Rightarrow> json \<Rightarrow> int \<Rightarrow> collector \<Rightarrow> outcome \<times> collector" where
  "handleRes gwKey msg now c =
     (let gw = map_of (gateways c) gwKey in
      if truthy (getp msg ''ok'') \<and> optp (getp msg ''payload'') ''type'' = JStr ''hello-ok'' then
        (case gw of
           None \<Rightarrow> (Threw, c)
         | Some g \<Rightarrow>
             (let c1 = setGwState gwKey connected c;
                  s = getp (getp msg ''payload'') ''snapshot'';
                  snap = (if truthy s then s else JObj []);
                  c2 = updateAll (gw_agents g)
                         [(''online'', JBool True), (''error'', JNull),
                          (''lastSeen'', JNum (of_int now)), (''health'', snap)] c1
              in (Returned, snd (setTimeout (PollGateway gwKey) 500 c2))))
      else if \<not> truthy (getp msg ''ok'') \<and> truthy (getp msg ''error'') then
        (case gw of
           None \<Rightarrow> (Threw, c)
         | Some g \<Rightarrow>
             (Returned, updateAll (gw_agents g)
                [(''online'', JBool False), (''error'', getp (getp msg ''error'') ''message'')] c))
      else if truthy (getp msg ''id'') then
        (case pendingTimer (pending c) (getp msg ''id'') of
           None \<Rightarrow> (Returned, c)
         | Some h \<Rightarrow>
             (let c1 = clearTimeout h c;
                  reqId = strOf (getp msg ''id'')
              in (Returned,
                  c1\<lparr> pending := AList.delete reqId (pending c1),
                      resolved := resolved c1 @
                        [(reqId, if truthy (getp msg ''ok'') then getp msg ''payload'' else JNull)] \<rparr>)))
      else (Returned, c))"

text \<open>
  \<open>_handleMessage\<close>. Reading \<open>msg.type\<close> throws when the frame parsed to null; every
  loop over \<open>gw.agents\<close> throws when no gateway is registered under the key. \<open>now\<close> is
  the reading of \<open>Date.now()\<close>.
\<close>

definition handleMessage :: "string \<Rightarrow> json \<Rightarrow> int \<Rightarrow> collector \<Rightarrow> outcome \<times> collector" where
  "handleMessage gwKey msg now c =
     (if nullish msg then (Threw, c)
      else if getp msg ''type'' = JStr ''event'' then handleEvent gwKey msg now c
      else if getp msg ''type'' = JStr ''res'' then handleRes gwKey msg now c
      else (Returned, c))"

section \<open>Socket callbacks\<close>

text \<open>
  The callbacks registered by \<open>_connect\<close> hold the gateway object \<open>gw\<close> and its key.
  \<open>held r gwKey c\<close> is that object while it is still the one registered under the key;
  an object that a reload has removed has an empty agent list and is reachable from
  nowhere else, so that writing to it changes nothing the collector reads.
\<close>

definition held :: "nat \<Rightarrow> string \<Rightarrow> collector \<Rightarrow> gateway option" where
  "held r gwKey c =
     (case map_of (gateways c) gwKey of
        None \<Rightarrow> None
      | Some g \<Rightarrow> if gw_ref g = r then Some g else None)"

definition ws_on_open :: "nat \<Rightarrow> string \<Rightarrow> collector \<Rightarrow> collector" where
  "ws_on_open r gwKey c =
     (case held r gwKey c of None \<Rightarrow> c | Some g \<Rightarrow> setGwState gwKey waiting_challenge c)"

text \<open>The frame is the parsed text, or None when \<open>JSON.parse\<close> throws; every exception is swallowed.\<close>

definition ws_on_message :: "string \<Rightarrow> json option \<Rightarrow> int \<Rightarrow> collector \<Rightarrow> collector" where
  "ws_on_message gwKey data now c =
     (case data of None \<Rightarrow> c | Some msg \<Rightarrow> snd (handleMessage gwKey msg now c))"




text \<open>
  \<open>_connect\<close>. \<open>ctor\<close> is None when \<open>new WebSocket(url)\<close> returns a socket, and the
  message of the exception when it throws. A socket being replaced is closed first.
\<close>

definition closeWs :: "websocket option \<Rightarrow> websocket option" where
  "closeWs w = (case w of None \<Rightarrow> None | Some ws \<Rightarrow> Some (ws\<lparr> readyState := CLOSING \<rparr>))"

definition connect :: "string \<Rightarrow> string option \<Rightarrow> collector \<Rightarrow> collector" where
  "connect gwKey ctor c =
     (case map_of (gateways c) gwKey of
        None \<Rightarrow> c
      | Some gw \<Rightarrow>
          (let c1 = c\<lparr> gateways :=
                      AList.map_entry gwKey (\<lambda>g. g\<lparr> gw_ws := closeWs (gw_ws g) \<rparr>) (gateways c) \<rparr>
           in case ctor of
                Some message \<Rightarrow>
                  scheduleReconnect gwKey
                    (updateAll (gw_agents gw)
                       [(''online'', JBool False), (''error'', JStr message)] c1)
              | None \<Rightarrow>
                  c1\<lparr> gateways :=
                      AList.map_entry gwKey
                        (\<lambda>g. g\<lparr> gw_ws := Some \<lparr> readyState = CONNECTING, sent = [] \<rparr>,
                                gw_state := connecting \<rparr>) (gateways c1) \<rparr>))"

section \<open>Polling\<close>

text \<open>The first half of \<open>_pollGateway\<close>, up to the \<open>await\<close>: six requests, in this order.\<close>

definition pollIssue :: "string \<Rightarrow> collector \<Rightarrow> call_result list \<times> collector" where
  "pollIssue gwKey c =
     (case map_of (gateways c) gwKey of
        None \<Rightarrow> ([], c)
      | Some gw \<Rightarrow>
          if gw_state gw \<noteq> connected then ([], c)
          else
            (let (r1, c1) = call gwKey ''health'' (JObj []) c;
                 (r2, c2) = call gwKey ''sessions.list''
                              (JObj [(''activeMinutes'', JNum 1440), (''limit'', JNum 50)]) c1;
                 (r3, c3) = call gwKey ''usage.cost'' (JObj [(''days'', JNum 7)]) c2;
                 (r4, c4) = call gwKey ''last-heartbeat'' (JObj []) c3;
                 (r5, c5) = call gwKey ''channels.status'' (JObj []) c4;
                 (r6, c6) = call gwKey ''cron.list'' (JObj []) c5
             in ([r1, r2, r3, r4, r5, r6], c6)))"

text \<open>The six values that the awaited requests resolved to.\<close>

record poll_results =
  r_health :: json
  r_sessions :: json
  r_usage :: json
  r_heartbeat :: json
  r_channels :: json
  r_cron :: json

text \<open>
  In the functions below None stands for a TypeError: a property read on a null or
  undefined array element, or a method call on a value that has no such method.
\<close>

text \<open>\<open>health.agents.find(a => a.agentId === agentKey)\<close>; undefined when nothing matches.\<close>

fun findAgent :: "string \<Rightarrow> json list \<Rightarrow> json option" where
  "findAgent agentKey [] = Some JUndefined"
| "findAgent agentKey (a # as) =
     (if nullish a then None
      else if getp a ''agentId'' = JStr agentKey then Some a
      else findAgent agentKey as)"

definition healthPart :: "json \<Rightarrow> string \<Rightarrow> obj option" where
  "healthPart health agentKey =
     (if \<not> truthy health then Some []
      else if isArray (getp health ''agents'') then
        (case findAgent agentKey (elems (getp health ''agents'')) of
           None \<Rightarrow> None
         | Some agentHealth \<Rightarrow>
             Some [(''health'',
                    JObj (if truthy agentHealth
                          then AList.update ''_agentHealth'' agentHealth (spread health)
                          else spread health))])
      else Some [(''health'', JObj (spread health))])"

definition startsWith :: "string \<Rightarrow> string \<Rightarrow> bool" where
  "startsWith s p = (take (length p) s = p)"

text \<open>The filter predicate \<open>s => { const key = s.key || ''; return key.startsWith(p); }\<close>\<close>

definition sessionTest :: "string \<Rightarrow> json \<Rightarrow> bool option" where
  "sessionTest p s =
     (if nullish s then None
      else (case getp s ''key'' of
              JStr k \<Rightarrow> Some (startsWith k p)
            | j \<Rightarrow> if truthy j then None else Some (startsWith [] p)))"

fun filterSessions :: "string \<Rightarrow> json list \<Rightarrow> json list option" where
  "filterSessions p [] = Some []"
| "filterSessions p (s # ss) =
     (case sessionTest p s of
        None \<Rightarrow> None
      | Some b \<Rightarrow>
          (case filterSessions p ss of
             None \<Rightarrow> None
           | Some r \<Rightarrow> Some (if b then s # r else r)))"

definition sessionPrefix :: "string \<Rightarrow> string" where
  "sessionPrefix agentKey = ''agent:'' @ agentKey @ '':''"

text \<open>\<open>sessions.sessions || sessions\<close>\<close>

definition allSessionsOf :: "json \<Rightarrow> json" where
  "allSessionsOf sessions =
     (if truthy (getp sessions ''sessions'') then getp sessions ''sessions'' else sessions)"

definition sessionsPart :: "json \<Rightarrow> string \<Rightarrow> obj option" where
  "sessionsPart sessions agentKey =
     (if \<not> truthy sessions then Some []
      else
        (let allSessions = allSessionsOf sessions
         in if isArray allSessions then
              (case filterSessions (sessionPrefix agentKey) (elems allSessions) of
                 None \<Rightarrow> None
               | Some filtered \<Rightarrow>
                   Some [(''sessions'',
                          JObj (AList.update ''sessions'' (JArr filtered) (spread sessions)))])
            else Some [(''sessions'', sessions)]))"

definition usagePart :: "json \<Rightarrow> nat \<Rightarrow> obj" where
  "usagePart usage n =
     (if truthy usage
      then [(''usage'', JObj (AList.update ''shared'' (JBool (n > 1)) (spread usage)))]
      else [])"

definition plainPart :: "string \<Rightarrow> json \<Rightarrow> obj" where
  "plainPart name v = (if truthy v then [(name, v)] else [])"

text \<open>The object \<open>update\<close> built for one agent; \<open>n\<close> is \<open>gw.agents.length\<close>.\<close>

definition agentUpdate :: "poll_results \<Rightarrow> nat \<Rightarrow> int \<Rightarrow> agent \<Rightarrow> obj option" where
  "agentUpdate res n now a =
     (case healthPart (r_health res) (agentKeyOf a) of
        None \<Rightarrow> None
      | Some h \<Rightarrow>
          (case sessionsPart (r_sessions res) (agentKeyOf a) of
             None \<Rightarrow> None
           | Some s \<Rightarrow>
               Some ([(''lastSeen'', JNum (of_int now))] @ h @ s @ usagePart (r_usage res) n
                     @ plainPart ''heartbeat'' (r_heartbeat res)
                     @ plainPart ''channels'' (r_channels res)
                     @ plainPart ''cron'' (r_cron res))))"

fun splitAgents :: "poll_results \<Rightarrow> nat \<Rightarrow> int \<Rightarrow> agent list \<Rightarrow> collector \<Rightarrow> outcome \<times> collector" where
  "splitAgents res n now [] c = (Returned, c)"
| "splitAgents res n now (a # as) c =
     (case agentUpdate res n now a of
        None \<Rightarrow> (Threw, c)
      | Some u \<Rightarrow> splitAgents res n now as (updateState (a_id a) u c))"

text \<open>
  The second half of \<open>_pollGateway\<close>, after the \<open>await\<close>, run on the gateway object
  \<open>r\<close> that the first half read. Threw is the rejection of the promise it returns.
\<close>

definition pollResume :: "nat \<Rightarrow> string \<Rightarrow> poll_results \<Rightarrow> int \<Rightarrow> collector \<Rightarrow> outcome \<times> collector" where
  "pollResume r gwKey res now c =
     (case held r gwKey c of
        None \<Rightarrow> (Returned, c)
      | Some g \<Rightarrow>
          (let c1 = c\<lparr> gateways :=
                      AList.map_entry gwKey
                        (\<lambda>gw. gw\<lparr> rawData :=
                           [(''health'', r_health res), (''sessions'', r_sessions res),
                            (''usage'', r_usage res), (''heartbeat'', r_heartbeat res),
                            (''channels'', r_channels res), (''cron'', r_cron res)] \<rparr>) (gateways c) \<rparr>
           in splitAgents res (length (gw_agents g)) now (gw_agents g) c1))"

text \<open>\<open>this.state.get(i)?.name\<close>, as a consumer of the state map reads it.\<close>

definition stateField :: "collector \<Rightarrow> string \<Rightarrow> string \<Rightarrow> json" where
  "stateField c i name = (case map_of (state c) i of None \<Rightarrow> JUndefined | Some s \<Rightarrow> getp (JObj s) name)"


text \<open>The agents of the gateway registered under a key: \<open>this.gateways.get(k)?.agents\<close>, or none.\<close>

definition agentsOf :: "collector \<Rightarrow> string \<Rightarrow> agent list" where
  "agentsOf c k = (case map_of (gateways c) k of None \<Rightarrow> [] | Some g \<Rightarrow> gw_agents g)"

text \<open>The connection parameters of an agent as the configuration file gives them.\<close>

definition endpoint :: "agent \<Rightarrow> string \<times> string \<times> string" where
  "endpoint a = (a_host a, a_port a, a_token a)"

text \<open>A session object whose \<open>key\<close> is a string that starts with the prefix.\<close>

definition keyStartsWith :: "string \<Rightarrow> json \<Rightarrow> bool" where
  "keyStartsWith p s = (case getp s ''key'' of JStr k \<Rightarrow> startsWith k p | _ \<Rightarrow> False)"

text \<open>\<open>this.state.get(i)?.sessions.sessions\<close> as a list.\<close>

definition sessionsOf :: "collector \<Rightarrow> string \<Rightarrow> json list" where
  "sessionsOf c i = elems (getp (stateField c i ''sessions'') ''sessions'')"

text \<open>
  What the JavaScript data structures guarantee of a collector: the state and gateways
  maps have distinct keys, and a state record belongs to an agent of the agents map.
\<close>

definition wellFormed :: "collector \<Rightarrow> bool" where
  "wellFormed c \<longleftrightarrow>
     distinct (map fst (state c)) \<and> distinct (map fst (gateways c))
     \<and> list_all (\<lambda>p. fst p \<in> fst ` set (agents c)) (state c)"

section \<open>Example configurations\<close>

definition alice :: agent where
  "alice = \<lparr> a_id = ''alice'', a_gatewayAgentId = None, a_host = ''127.0.0.1'', a_port = ''18789'',
     a_token = ''secret-token-1'', a_name = JStr ''Alice'', a_emoji = JUndefined,
     a_machine = JUndefined \<rparr>"

definition bob :: agent where
  "bob = \<lparr> a_id = ''bob'', a_gatewayAgentId = Some ''b'', a_host = ''127.0.0.1'', a_port = ''18789'',
     a_token = ''secret-token-1'', a_name = JStr ''Bob'', a_emoji = JUndefined,
     a_machine = JUndefined \<rparr>"

text \<open>An agent whose token differs from that of alice and bob after the eighth character.\<close>

definition carol :: agent where
  "carol = \<lparr> a_id = ''carol'', a_gatewayAgentId = None, a_host = ''127.0.0.1'', a_port = ''18789'',
     a_token = ''secret-token-2'', a_name = JStr ''Carol'', a_emoji = JUndefined,
     a_machine = JUndefined \<rparr>"

definition shared_key :: string where
  "shared_key = ''127.0.0.1:18789:secret-t''"

text \<open>The collector after loading a configuration with alice and bob, before any connect.\<close>

definition loaded :: collector where
  "loaded = loadBody \<lparr> cfg_agents = [alice, bob] \<rparr> new_collector"

text \<open>The same collector with an open socket on its gateway, in the middle of the handshake.\<close>

definition handshaking :: collector where
  "handshaking =
     loaded\<lparr> gateways :=
       AList.map_entry shared_key
         (\<lambda>g. g\<lparr> gw_ws := Some \<lparr> readyState = OPEN, sent = [] \<rparr>, gw_state := waiting_challenge \<rparr>)
         (gateways loaded) \<rparr>"

definition hello_ok :: json where
  "hello_ok = JObj [(''type'', JStr ''res''), (''id'', JStr ''1''), (''ok'', JBool True),
                    (''payload'', JObj [(''type'', JStr ''hello-ok'')])]"

definition late_res :: json where
  "late_res = JObj [(''type'', JStr ''res''), (''id'', JStr ''7''), (''ok'', JBool True),
                    (''payload'', JObj [(''sessions'', JArr [])])]"

text \<open>A configuration that drops alice and adds carol.\<close>

definition reloaded_cfg :: config where
  "reloaded_cfg = \<lparr> cfg_agents = [bob, carol] \<rparr>"

text \<open>A configuration of two agents whose tokens agree on their first eight characters only.\<close>

definition prefix_cfg :: config where
  "prefix_cfg = \<lparr> cfg_agents = [alice, carol] \<rparr>"

text \<open>Two agents on one gateway, the id of one being the id of the other followed by \<open>:b\<close>.\<close>

definition ann :: agent where
  "ann = \<lparr> a_id = ''a'', a_gatewayAgentId = None, a_host = ''127.0.0.1'', a_port = ''18789'',
     a_token = ''secret-token-1'', a_name = JStr ''Ann'', a_emoji = JUndefined,
     a_machine = JUndefined \<rparr>"

definition abe :: agent where
  "abe = \<lparr> a_id = ''a:b'', a_gatewayAgentId = None, a_host = ''127.0.0.1'', a_port = ''18789'',
     a_token = ''secret-token-1'', a_name = JStr ''Abe'', a_emoji = JUndefined,
     a_machine = JUndefined \<rparr>"

definition colon_loaded :: collector where
  "colon_loaded = loadBody \<lparr> cfg_agents = [ann, abe] \<rparr> new_collector"

definition session :: "string \<Rightarrow> json" where
  "session k = JObj [(''key'', JStr k)]"

definition poll_of :: "json list \<Rightarrow> poll_results" where
  "poll_of ss = \<lparr> r_health = JNull, r_sessions = JObj [(''count'', JNum (of_nat (length ss))),
                                                      (''sessions'', JArr ss)],
                  r_usage = JNull, r_heartbeat = JNull, r_channels = JNull, r_cron = JNull \<rparr>"

section \<open>JavaScript numbers\<close>

text \<open>
  A cost is a JavaScript number, an IEEE 754 binary64 value. A finite number is kept as
  its exact rational value; the two zeros are not told apart, which no operation of the
  analyzer does either. Every arithmetic operation gives the number nearest to the exact
  result, ties going to the even significand, and infinity from \<open>2^1024\<close> on.
\<close>

datatype number = Num rat | PosInf | NegInf | NaN

definition pow2 :: "int \<Rightarrow> rat" where
  "pow2 e = (if 0 \<le> e then 2 ^ nat e else 1 / 2 ^ nat (- e))"

text \<open>The exponent \<open>e\<close> with \<open>2^e \<le> x < 2^(e+1)\<close>, for a positive \<open>x\<close>.\<close>

definition ilog2 :: "rat \<Rightarrow> int" where
  "ilog2 x =
     (let e0 = bitlen (fst (quotient_of x)) - bitlen (snd (quotient_of x))
      in if pow2 e0 \<le> x then e0 else e0 - 1)"

definition roundEven :: "rat \<Rightarrow> int" where
  "roundEven x =
     (let f = \<lfloor>x\<rfloor>; r = x - of_int f
      in if r < 1 / 2 then f else if 1 / 2 < r then f + 1 else if even f then f else f + 1)"

text \<open>
  The number nearest to a real: a significand \<open>m\<close> of at most 53 bits times \<open>2^q\<close>,
  the least \<open>q\<close> being -1074. The result is infinite when it reaches \<open>2^1024\<close>, that
  is, when \<open>q\<close> is above 971, or is 971 with the significand rounded up to \<open>2^53\<close>.
\<close>

definition toDouble :: "rat \<Rightarrow> number" where
  "toDouble x =
     (if x = 0 then Num 0
      else
        (let q = max (ilog2 \<bar>x\<bar> - 52) (- 1074);
             m = roundEven (\<bar>x\<bar> / pow2 q)
         in if 971 < q \<or> (q = 971 \<and> 9007199254740992 \<le> m)
            then (if 0 < x then PosInf else NegInf)
            else Num (if 0 < x then of_int m * pow2 q else - (of_int m * pow2 q))))"

text \<open>\<open>x + y\<close>\<close>

fun dadd :: "number \<Rightarrow> number \<Rightarrow> number" where
  "dadd (Num a) (Num b) = toDouble (a + b)"
| "dadd NaN y = NaN"
| "dadd x NaN = NaN"
| "dadd PosInf NegInf = NaN"
| "dadd NegInf PosInf = NaN"
| "dadd PosInf y = PosInf"
| "dadd x PosInf = PosInf"
| "dadd NegInf y = NegInf"
| "dadd x NegInf = NegInf"

fun dneg :: "number \<Rightarrow> number" where
  "dneg (Num a) = Num (- a)"
| "dneg PosInf = NegInf"
| "dneg NegInf = PosInf"
| "dneg NaN = NaN"

text \<open>\<open>x - y\<close>\<close>

definition dsub :: "number \<Rightarrow> number \<Rightarrow> number" where
  "dsub x y = dadd x (dneg y)"

text \<open>\<open>x * k\<close> and \<open>x / k\<close> for a positive finite constant \<open>k\<close>.\<close>

fun dtimes :: "number \<Rightarrow> rat \<Rightarrow> number" where
  "dtimes (Num a) k = toDouble (a * k)"
| "dtimes x k = x"

fun dover :: "number \<Rightarrow> rat \<Rightarrow> number" where
  "dover (Num a) k = toDouble (a / k)"
| "dover x k = x"

text \<open>\<open>x > 0\<close>\<close>

fun positive :: "number \<Rightarrow> bool" where
  "positive (Num a) = (0 < a)"
| "positive PosInf = True"
| "positive x = False"

text \<open>\<open>Math.round(x)\<close>: the integer nearest to a number, a tie going up.\<close>

fun mathRound :: "number \<Rightarrow> number" where
  "mathRound (Num a) = Num (of_int \<lfloor>a + 1 / 2\<rfloor>)"
| "mathRound x = x"

text \<open>\<open>Math.round(x * 10000) / 10000\<close>\<close>

definition round4 :: "number \<Rightarrow> number" where
  "round4 x = dover (mathRound (dtimes x 10000)) 10000"


text \<open>
  \<open>xs.sort(cmp)\<close>, a stable sort; \<open>after a b\<close> is \<open>cmp(a, b) > 0\<close>. Where the
  comparator is not consistent, as with a cost that is NaN, the language leaves the
  order to the engine.
\<close>

fun insertSorted :: "('a \<Rightarrow> 'a \<Rightarrow> bool) \<Rightarrow> 'a \<Rightarrow> 'a list \<Rightarrow> 'a list" where
  "insertSorted after x [] = [x]"
| "insertSorted after x (y # ys) =
     (if after x y then y # insertSorted after x ys else x # y # ys)"

definition sortWith :: "('a \<Rightarrow> 'a \<Rightarrow> bool) \<Rightarrow> 'a list \<Rightarrow> 'a list" where
  "sortWith after xs = foldr (insertSorted after) xs []"

section \<open>Session archive: the transcript tree\<close>

text \<open>
  The analyzer functions read \<open>~/.openclaw/agents\<close>. The tree is embedded as the values
  that the file system calls return; a call that throws is None.

  A transcript line is embedded as what the scan reads off it. \<open>Unparsable\<close> is a line on
  which \<open>JSON.parse\<close> or the first property read throws; \<open>Other\<close> is any record that is
  neither a \<open>model_change\<close> nor a \<open>message\<close> with a message object. Of a message the
  embedding keeps the role, the numbers \<open>usage.cost?.total || 0\<close>, \<open>usage.input || 0\<close>,
  \<open>usage.output || 0\<close>, \<open>usage.cacheRead || 0\<close>, \<open>usage.cacheWrite || 0\<close>, taken to be
  a number for the cost and natural numbers for the token counts, and the timestamp
  \<open>data.timestamp || msg.timestamp\<close>: \<open>NoTs\<close> when that is falsy, \<open>BadTs\<close> when
  \<open>new Date(ts).getTime()\<close> is NaN, else \<open>Ts\<close> of the milliseconds.
\<close>

datatype timestamp = NoTs | BadTs | Ts int

record message =
  m_role :: string
  m_ts :: timestamp
  m_cost :: number
  m_input :: nat
  m_output :: nat
  m_cacheRead :: nat
  m_cacheWrite :: nat

datatype line = Unparsable | ModelChange string | Message message | Other

text \<open>A file of a sessions directory: its name, \<open>statSync(path).mtimeMs\<close> and its non-blank lines.\<close>

record transcript_file =
  f_name :: string
  f_mtimeMs :: "rat option"
  f_lines :: "line list option"

text \<open>
  An entry of \<open>sessions.json\<close>: the path \<open>sessionFile\<close> (empty when falsy),
  \<open>updatedAt || 0\<close>, and the non-blank lines of the file at that path, None when it does
  not exist or cannot be read.
\<close>

record index_entry =
  e_sessionFile :: string
  e_updatedAt :: rat
  e_lines :: "line list option"

text \<open>
  An agent directory: its name, the listing of its sessions directory (None when the
  directory is missing or unreadable) and the entries of \<open>sessions.json\<close> in file order
  (None when the file is missing or unparsable; an entry that is None is a \<open>null\<close> value).
\<close>

record agent_dir =
  d_name :: string
  d_files :: "transcript_file list option"
  d_index :: "(string \<times> index_entry option) list option"

section \<open>String helpers\<close>

definition endsWith :: "string \<Rightarrow> string \<Rightarrow> bool" where
  "endsWith s suf = (length suf \<le> length s \<and> drop (length s - length suf) s = suf)"

fun includesStr :: "string \<Rightarrow> string \<Rightarrow> bool" where
  "includesStr [] sub = (sub = [])"
| "includesStr (ch # cs) sub = (startsWith (ch # cs) sub \<or> includesStr cs sub)"

text \<open>\<open>s.replace(pat, rep)\<close> with a string pattern: the first occurrence only.\<close>

fun replaceFirst :: "string \<Rightarrow> string \<Rightarrow> string \<Rightarrow> string" where
  "replaceFirst [] pat rep = (if pat = [] then rep else [])"
| "replaceFirst (ch # cs) pat rep =
     (if startsWith (ch # cs) pat then rep @ drop (length pat) (ch # cs)
      else ch # replaceFirst cs pat rep)"

text \<open>\<open>s.split(':')\<close>\<close>

fun splitColon :: "string \<Rightarrow> string list" where
  "splitColon [] = [[]]"
| "splitColon (ch # cs) =
     (if ch = CHR '':'' then [] # splitColon cs
      else (case splitColon cs of [] \<Rightarrow> [[ch]] | p # ps \<Rightarrow> (ch # p) # ps))"

section \<open>The cutoff window\<close>

text \<open>
  \<open>rangeStr\<close> after \<open>rangeStr === 'all'\<close> and \<open>parseInt(rangeStr)\<close>. The cutoff is a
  number of milliseconds, or NaN (None), against which every comparison is false.
\<close>

datatype range = RangeAll | RangeDays int | RangeNaN

definition cutoffDate :: "range \<Rightarrow> int \<Rightarrow> int option" where
  "cutoffDate rng now =
     (case rng of
        RangeAll \<Rightarrow> Some 0
      | RangeDays n \<Rightarrow> Some (now - n * 86400000)
      | RangeNaN \<Rightarrow> None)"

text \<open>\<open>x < cutoffDate\<close>\<close>

definition before :: "rat \<Rightarrow> int option \<Rightarrow> bool" where
  "before x cutoff = (case cutoff of None \<Rightarrow> False | Some k \<Rightarrow> x < of_int k)"

text \<open>\<open>ts && new Date(ts).getTime() < cutoffDate\<close>\<close>

definition tooOld :: "int option \<Rightarrow> timestamp \<Rightarrow> bool" where
  "tooOld cutoff ts = (case ts of Ts t \<Rightarrow> before (of_int t) cutoff | _ \<Rightarrow> False)"

text \<open>
  \<open>new Date(ts).toISOString().split('T')[0]\<close>: the UTC calendar day, kept as the number
  of the day since the epoch.
\<close>

definition dayOf :: "int \<Rightarrow> int" where
  "dayOf t = t div 86400000"

definition isTranscript :: "transcript_file \<Rightarrow> bool" where
  "isTranscript f =
     (endsWith (f_name f) ''.jsonl'' \<and> \<not> includesStr (f_name f) ''.deleted.''
      \<and> \<not> includesStr (f_name f) ''.archived.'')"

definition selectAgents :: "string \<Rightarrow> agent_dir list option \<Rightarrow> agent_dir list" where
  "selectAgents agentFilter tree =
     (let dirs = (case tree of None \<Rightarrow> [] | Some ds \<Rightarrow> ds)
      in if agentFilter \<noteq> ''all'' then filter (\<lambda>d. d_name d = agentFilter) dirs else dirs)"

section \<open>getAnalytics\<close>

record bucket =
  b_cost :: number
  b_tokens :: nat

text \<open>\<open>if (!m.has(k)) m.set(k, { cost: 0, tokens: 0 }); m.get(k).cost += c; m.get(k).tokens += t\<close>\<close>

definition bump :: "'k \<Rightarrow> number \<Rightarrow> nat \<Rightarrow> ('k \<times> bucket) list \<Rightarrow> ('k \<times> bucket) list" where
  "bump k c t m =
     AList.map_entry k (\<lambda>b. b\<lparr> b_cost := dadd (b_cost b) c, b_tokens := b_tokens b + t \<rparr>)
       (if map_of m k = None then AList.update k \<lparr> b_cost = Num 0, b_tokens = 0 \<rparr> m else m)"

text \<open>The variables of the scan of one file, with the two maps that the scan writes to.\<close>

record scan =
  sessionCost :: number
  sessionTokens :: nat
  sessionInput :: nat
  sessionOutput :: nat
  sessionCache :: nat
  sessionCalls :: nat
  sessionModel :: "string option"
  byDate :: "(int \<times> bucket) list"
  byModel :: "(string \<times> bucket) list"

definition trackModel :: "number \<Rightarrow> nat \<Rightarrow> scan \<Rightarrow> scan" where
  "trackModel c t s =
     (case sessionModel s of None \<Rightarrow> s | Some m \<Rightarrow> s\<lparr> byModel := bump m c t (byModel s) \<rparr>)"

text \<open>
  One line. A message older than the cutoff is left with \<open>continue\<close>. On a timestamp that
  is not a date \<open>toISOString\<close> throws after the session variables were updated, and the
  line is given up as malformed.
\<close>

definition scanLine :: "int option \<Rightarrow> line \<Rightarrow> scan \<Rightarrow> scan" where
  "scanLine cutoff l s =
     (case l of
        Unparsable \<Rightarrow> s
      | Other \<Rightarrow> s
      | ModelChange m \<Rightarrow> if m \<noteq> [] then s\<lparr> sessionModel := Some m \<rparr> else s
      | Message msg \<Rightarrow>
          if tooOld cutoff (m_ts msg) then s
          else
            (let t = m_input msg + m_output msg + m_cacheRead msg;
                 s1 = s\<lparr> sessionCost := dadd (sessionCost s) (m_cost msg),
                         sessionTokens := sessionTokens s + t,
                         sessionInput := sessionInput s + m_input msg,
                         sessionOutput := sessionOutput s + m_output msg,
                         sessionCache := sessionCache s + m_cacheRead msg,
                         sessionCalls := (if m_role msg = ''user'' then Suc (sessionCalls s)
                                          else sessionCalls s) \<rparr>
             in case m_ts msg of
                  BadTs \<Rightarrow> s1
                | NoTs \<Rightarrow> trackModel (m_cost msg) t s1
                | Ts ms \<Rightarrow>
                    trackModel (m_cost msg) t
                      (s1\<lparr> byDate := bump (dayOf ms) (m_cost msg) t (byDate s1) \<rparr>)))"

record top_session =
  ts_agentId :: string
  ts_sessionId :: string
  ts_cost :: number
  ts_tokens :: nat

record analytics =
  totalCost :: number
  totalTokens :: nat
  inputTokens :: nat
  outputTokens :: nat
  cacheReadTokens :: nat
  apiCalls :: nat
  byAgent :: "(string \<times> bucket) list"
  overTime :: "(int \<times> bucket) list"
  models :: "(string \<times> bucket) list"
  topSessions :: "top_session list"

definition analytics0 :: analytics where
  "analytics0 = \<lparr> totalCost = Num 0, totalTokens = 0, inputTokens = 0, outputTokens = 0,
     cacheReadTokens = 0, apiCalls = 0, byAgent = [], overTime = [], models = [],
     topSessions = [] \<rparr>"

definition scanFile :: "int option \<Rightarrow> transcript_file \<Rightarrow> analytics \<Rightarrow> scan" where
  "scanFile cutoff f acc =
     (let s0 = \<lparr> sessionCost = Num 0, sessionTokens = 0, sessionInput = 0, sessionOutput = 0,
                 sessionCache = 0, sessionCalls = 0, sessionModel = None,
                 byDate = overTime acc, byModel = models acc \<rparr>
      in case f_lines f of None \<Rightarrow> s0 | Some ls \<Rightarrow> fold (scanLine cutoff) ls s0)"

text \<open>The body of the loop over the files of one agent.\<close>

definition analyticsFile :: "int option \<Rightarrow> string \<Rightarrow> transcript_file \<Rightarrow> analytics \<Rightarrow> analytics" where
  "analyticsFile cutoff agentId f acc =
     (case f_mtimeMs f of
        None \<Rightarrow> acc
      | Some mtime \<Rightarrow>
          if before mtime cutoff then acc
          else
            (let s = scanFile cutoff f acc
             in acc\<lparr> totalCost := dadd (totalCost acc) (sessionCost s),
                     totalTokens := totalTokens acc + sessionTokens s,
                     inputTokens := inputTokens acc + sessionInput s,
                     outputTokens := outputTokens acc + sessionOutput s,
                     cacheReadTokens := cacheReadTokens acc + sessionCache s,
                     apiCalls := apiCalls acc + sessionCalls s,
                     byAgent := bump agentId (sessionCost s) (sessionTokens s) (byAgent acc),
                     overTime := byDate s,
                     models := byModel s,
                     topSessions := topSessions acc @
                       (if positive (sessionCost s) \<or> sessionTokens s > 0
                        then [\<lparr> ts_agentId = agentId,
                                ts_sessionId = replaceFirst (f_name f) ''.jsonl'' [],
                                ts_cost = sessionCost s, ts_tokens = sessionTokens s \<rparr>]
                        else []) \<rparr>))"

definition analyticsAgent :: "int option \<Rightarrow> agent_dir \<Rightarrow> analytics \<Rightarrow> analytics" where
  "analyticsAgent cutoff d acc =
     (case d_files d of
        None \<Rightarrow> acc
      | Some fs \<Rightarrow> fold (analyticsFile cutoff (d_name d)) (filter isTranscript fs) acc)"

text \<open>
  \<open>getAnalytics\<close>; \<open>now\<close> is the reading of \<open>Date.now()\<close>. The breakdowns are sorted
  as the source sorts them; the days are sorted by their number, which is the order of
  the date strings for the years 0000 to 9999.
\<close>

definition getAnalytics :: "range \<Rightarrow> int \<Rightarrow> string \<Rightarrow> agent_dir list option \<Rightarrow> analytics" where
  "getAnalytics rng now agentFilter tree =
     (let cutoff = cutoffDate rng now;
          acc = fold (analyticsAgent cutoff) (selectAgents agentFilter tree) analytics0
      in acc\<lparr> totalCost := round4 (totalCost acc),
              byAgent := sortWith (\<lambda>a b. positive (dsub (b_cost (snd b)) (b_cost (snd a)))) (byAgent acc),
              overTime := sort_key fst (overTime acc),
              models := sort_key (\<lambda>kb. - int (b_tokens (snd kb))) (models acc),
              topSessions :=
                take 20 (sortWith (\<lambda>a b. positive (dsub (ts_cost b) (ts_cost a))) (topSessions acc)) \<rparr>)"

section \<open>getTokenAnalytics\<close>

record tbucket =
  tb_input :: nat
  tb_output :: nat
  tb_cacheRead :: nat
  tb_cacheWrite :: nat
  tb_cost :: number

definition tbump :: "'k \<Rightarrow> message \<Rightarrow> ('k \<times> tbucket) list \<Rightarrow> ('k \<times> tbucket) list" where
  "tbump k msg m =
     AList.map_entry k
       (\<lambda>b. b\<lparr> tb_input := tb_input b + m_input msg, tb_output := tb_output b + m_output msg,
               tb_cacheRead := tb_cacheRead b + m_cacheRead msg,
               tb_cacheWrite := tb_cacheWrite b + m_cacheWrite msg,
               tb_cost := dadd (tb_cost b) (m_cost msg) \<rparr>)
       (if map_of m k = None
        then AList.update k \<lparr> tb_input = 0, tb_output = 0, tb_cacheRead = 0, tb_cacheWrite = 0,
                              tb_cost = Num 0 \<rparr> m
        else m)"

record token_analytics =
  tk_totalCost :: number
  tk_totalTokens :: nat
  tk_inputTokens :: nat
  tk_outputTokens :: nat
  tk_cacheReadTokens :: nat
  tk_cacheWriteTokens :: nat
  tk_apiCalls :: nat
  tk_cacheHitRate :: number
  tk_avgTokensPerCall :: number
  tk_byAgent :: "(string \<times> tbucket) list"
  tk_overTime :: "(int \<times> tbucket) list"

definition token_analytics0 :: token_analytics where
  "token_analytics0 = \<lparr> tk_totalCost = Num 0, tk_totalTokens = 0, tk_inputTokens = 0,
     tk_outputTokens = 0, tk_cacheReadTokens = 0, tk_cacheWriteTokens = 0, tk_apiCalls = 0,
     tk_cacheHitRate = Num 0, tk_avgTokensPerCall = Num 0, tk_byAgent = [], tk_overTime = [] \<rparr>"

definition tokenLine :: "int option \<Rightarrow> string \<Rightarrow> line \<Rightarrow> token_analytics \<Rightarrow> token_analytics" where
  "tokenLine cutoff agentId l acc =
     (case l of
        Message msg \<Rightarrow>
          if tooOld cutoff (m_ts msg) then acc
          else
            (let acc1 = acc\<lparr> tk_totalCost := dadd (tk_totalCost acc) (m_cost msg),
                             tk_totalTokens := tk_totalTokens acc
                                + (m_input msg + m_output msg + m_cacheRead msg),
                             tk_inputTokens := tk_inputTokens acc + m_input msg,
                             tk_outputTokens := tk_outputTokens acc + m_output msg,
                             tk_cacheReadTokens := tk_cacheReadTokens acc + m_cacheRead msg,
                             tk_cacheWriteTokens := tk_cacheWriteTokens acc + m_cacheWrite msg,
                             tk_apiCalls := (if m_role msg = ''user'' then Suc (tk_apiCalls acc)
                                             else tk_apiCalls acc) \<rparr>
             in case m_ts msg of
                  BadTs \<Rightarrow> acc1
                | NoTs \<Rightarrow> acc1\<lparr> tk_byAgent := tbump agentId msg (tk_byAgent acc1) \<rparr>
                | Ts ms \<Rightarrow>
                    acc1\<lparr> tk_overTime := tbump (dayOf ms) msg (tk_overTime acc1),
                          tk_byAgent := tbump agentId msg (tk_byAgent acc1) \<rparr>)
      | _ \<Rightarrow> acc)"

definition tokenFile :: "int option \<Rightarrow> string \<Rightarrow> transcript_file \<Rightarrow> token_analytics \<Rightarrow> token_analytics" where
  "tokenFile cutoff agentId f acc =
     (case f_mtimeMs f of
        None \<Rightarrow> acc
      | Some mtime \<Rightarrow>
          if before mtime cutoff then acc
          else (case f_lines f of
                  None \<Rightarrow> acc
                | Some ls \<Rightarrow> fold (tokenLine cutoff agentId) ls acc))"

definition tokenAgent :: "int option \<Rightarrow> agent_dir \<Rightarrow> token_analytics \<Rightarrow> token_analytics" where
  "tokenAgent cutoff d acc =
     (case d_files d of
        None \<Rightarrow> acc
      | Some fs \<Rightarrow> fold (tokenFile cutoff (d_name d)) (filter isTranscript fs) acc)"

definition getTokenAnalytics :: "range \<Rightarrow> int \<Rightarrow> string \<Rightarrow> agent_dir list option \<Rightarrow> token_analytics" where
  "getTokenAnalytics rng now agentFilter tree =
     (let cutoff = cutoffDate rng now;
          acc = fold (tokenAgent cutoff) (selectAgents agentFilter tree) token_analytics0;
          cacheHitRate =
            (if tk_inputTokens acc > 0
             then dtimes (toDouble (of_nat (tk_cacheReadTokens acc)
                                    / of_nat (tk_inputTokens acc + tk_cacheReadTokens acc))) 100
             else Num 0)
      in acc\<lparr> tk_totalCost := round4 (tk_totalCost acc),
              tk_cacheHitRate := dover (mathRound (dtimes cacheHitRate 10)) 10,
              tk_avgTokensPerCall :=
                (if tk_apiCalls acc > 0
                 then mathRound (toDouble (of_nat (tk_totalTokens acc) / of_nat (tk_apiCalls acc)))
                 else Num 0),
              tk_byAgent := sort_key (\<lambda>kb. - int (tb_input (snd kb) + tb_output (snd kb)
                                                    + tb_cacheRead (snd kb))) (tk_byAgent acc),
              tk_overTime := sort_key fst (tk_overTime acc) \<rparr>)"

section \<open>getTraces\<close>

text \<open>
  The statistics that \<open>getTraces\<close> reads off a transcript. It has no cutoff. The first
  and last timestamps, the label and the display name and emoji of the agent are copied
  into the session record without any bearing on the forest and are left out, as is the
  summary, a traversal of the finished forest.
\<close>

record trace_scan =
  tr_cost :: number
  tr_tokens :: nat
  tr_messageCount :: nat
  tr_model :: "string option"

definition traceLine :: "line \<Rightarrow> trace_scan \<Rightarrow> trace_scan" where
  "traceLine l s =
     (case l of
        ModelChange m \<Rightarrow> if m \<noteq> [] then s\<lparr> tr_model := Some m \<rparr> else s
      | Message msg \<Rightarrow>
          s\<lparr> tr_cost := dadd (tr_cost s) (m_cost msg),
             tr_tokens := tr_tokens s + (m_input msg + m_output msg + m_cacheRead msg),
             tr_messageCount := (if m_role msg = ''user'' then Suc (tr_messageCount s)
                                 else tr_messageCount s) \<rparr>
      | _ \<Rightarrow> s)"

definition traceScan :: "line list option \<Rightarrow> trace_scan" where
  "traceScan file =
     (let s0 = \<lparr> tr_cost = Num 0, tr_tokens = 0, tr_messageCount = 0, tr_model = None \<rparr>
      in case file of None \<Rightarrow> s0 | Some ls \<Rightarrow> fold traceLine ls s0)"

definition isMainKey :: "string \<Rightarrow> bool" where
  "isMainKey key = (endsWith key '':main'' \<or> \<not> includesStr key '':subagent:'')"

definition parentKeyOf :: "string \<Rightarrow> string option" where
  "parentKeyOf key =
     (if includesStr key '':subagent:'' then
        (let parts = splitColon key
         in if length parts \<ge> 4 then Some (parts ! 0 @ '':'' @ parts ! 1 @ '':main'') else None)
      else None)"

text \<open>
  A value of \<open>sessionMap\<close>. The objects are shared between the map, the root list and
  the child lists; a child list holds the keys of the objects pushed to it.
\<close>

record session_record =
  s_key :: string
  s_agentId :: string
  s_model :: string
  s_cost :: number
  s_tokens :: nat
  s_messageCount :: nat
  s_updatedAt :: rat
  s_isMain :: bool
  s_parentKey :: "string option"
  s_children :: "string list"

definition mkSession :: "string \<Rightarrow> string \<Rightarrow> index_entry \<Rightarrow> session_record" where
  "mkSession agentId key e =
     (let st = traceScan (e_lines e)
      in \<lparr> s_key = key, s_agentId = agentId,
           s_model = (case tr_model st of
                        None \<Rightarrow> ''unknown''
                      | Some m \<Rightarrow> replaceFirst (replaceFirst m ''anthropic/'' []) ''openai/'' []),
           s_cost = tr_cost st, s_tokens = tr_tokens st, s_messageCount = tr_messageCount st,
           s_updatedAt = e_updatedAt e, s_isMain = isMainKey key, s_parentKey = parentKeyOf key,
           s_children = [] \<rparr>)"

text \<open>
  The entries of one \<open>sessions.json\<close>. Reading \<open>sessionFile\<close> off a null entry throws,
  which ends the loop over this file.
\<close>

fun collectIndex :: "string \<Rightarrow> (string \<times> index_entry option) list
    \<Rightarrow> (string \<times> session_record) list \<Rightarrow> (string \<times> session_record) list" where
  "collectIndex agentId [] m = m"
| "collectIndex agentId ((key, None) # es) m = m"
| "collectIndex agentId ((key, Some e) # es) m =
     (if e_sessionFile e = [] then collectIndex agentId es m
      else collectIndex agentId es (AList.update key (mkSession agentId key e) m))"

definition collectAgent :: "agent_dir \<Rightarrow> (string \<times> session_record) list \<Rightarrow> (string \<times> session_record) list" where
  "collectAgent d m = (case d_index d of None \<Rightarrow> m | Some es \<Rightarrow> collectIndex (d_name d) es m)"

text \<open>The second pass: one entry of \<open>sessionMap\<close>, the map of objects and the root list.\<close>

definition attach :: "string \<times> session_record
    \<Rightarrow> (string \<times> session_record) list \<times> string list
    \<Rightarrow> (string \<times> session_record) list \<times> string list" where
  "attach ks sr =
     (if s_isMain (snd ks) then (fst sr, snd sr @ [fst ks])
      else (case s_parentKey (snd ks) of
              None \<Rightarrow> sr
            | Some pk \<Rightarrow>
                (case map_of (fst sr) pk of
                   Some parent \<Rightarrow>
                     (AList.map_entry pk (\<lambda>p. p\<lparr> s_children := s_children p @ [fst ks] \<rparr>) (fst sr),
                      snd sr)
                 | None \<Rightarrow> (fst sr, snd sr @ [fst ks]))))"

record traces =
  rootSessions :: "string list"
  sessionMap :: "(string \<times> session_record) list"

definition getTraces :: "agent_dir list option \<Rightarrow> traces" where
  "getTraces tree =
     (case tree of
        None \<Rightarrow> \<lparr> rootSessions = [], sessionMap = [] \<rparr>
      | Some dirs \<Rightarrow>
          (let m = fold collectAgent dirs [];
               sr = fold attach m (m, [])
           in \<lparr> rootSessions =
                  sort_key (\<lambda>k. case map_of (fst sr) k of None \<Rightarrow> 0 | Some s \<Rightarrow> - s_updatedAt s)
                    (snd sr),
                sessionMap = fst sr \<rparr>))"

text \<open>The child list of the object stored under a key.\<close>

definition childrenOf :: "traces \<Rightarrow> string \<Rightarrow> string list" where
  "childrenOf t k = (case map_of (sessionMap t) k of None \<Rightarrow> [] | Some s \<Rightarrow> s_children s)"

section \<open>Reading the aggregation\<close>




text \<open>A file whose modification time is older than the cutoff.\<close>

definition olderThan :: "int option \<Rightarrow> transcript_file \<Rightarrow> bool" where
  "olderThan cutoff f = (case f_mtimeMs f of None \<Rightarrow> False | Some mtime \<Rightarrow> before mtime cutoff)"


text \<open>The transcript tree without the files that are older than the cutoff.\<close>

definition dropOld :: "int option \<Rightarrow> agent_dir list option \<Rightarrow> agent_dir list option" where
  "dropOld cutoff tree =
     map_option (map (\<lambda>d. d\<lparr> d_files := map_option (filter (\<lambda>f. \<not> olderThan cutoff f)) (d_files d) \<rparr>))
       tree"




section \<open>Example transcripts\<close>






definition index_tree :: "string list \<Rightarrow> agent_dir list option" where
  "index_tree keys =
     Some [\<lparr> d_name = ''x'', d_files = None,
             d_index = Some (map (\<lambda>k. (k, Some \<lparr> e_sessionFile = ''/t.jsonl'', e_updatedAt = 1,
                                                  e_lines = None \<rparr>)) keys) \<rparr>]"

section \<open>Properties of the collector\<close>

subsection \<open>getSnapshot\<close>

text \<open>
  C8, as stated: two consecutive calls of \<open>getSnapshot\<close> with no event in between return
  identical results. The result carries the clock reading of the call, so two calls made
  at different milliseconds differ, here on a fresh collector read at times 1 and 2.
\<close>

theorem getSnapshot_clock_counterexample:
  "getSnapshot 1 new_collector \<noteq> getSnapshot 2 new_collector"
  by (simp add: getSnapshot_def)

text \<open>
  C8, amended: two calls of \<open>getSnapshot\<close> on the same collector state return the same
  agents map and the same host metrics; the field \<open>ts\<close> of each result is the clock
  reading of its own call.
\<close>

theorem getSnapshot_same_state:
  "snap_agents (getSnapshot t1 c) = snap_agents (getSnapshot t2 c)
   \<and> snap_host (getSnapshot t1 c) = snap_host (getSnapshot t2 c)
   \<and> snap_ts (getSnapshot t1 c) = t1 \<and> snap_ts (getSnapshot t2 c) = t2"
  by (simp add: getSnapshot_def)

subsection \<open>Requests on a link that is not connected\<close>

text \<open>
  C6: when the gateway registered under the key is not in state \<open>connected\<close>, \<open>_call\<close>
  resolves to null and leaves the collector as it was: no frame is written to the socket,
  no timer is armed, no pending entry is made and no request id is used up.
\<close>

theorem call_not_connected:
  assumes "case map_of (gateways c) gwKey of None \<Rightarrow> True | Some gw \<Rightarrow> gw_state gw \<noteq> connected"
  shows "call gwKey method params c = (Resolved JNull, c)"
  using assms by (simp add: call_def split: option.splits)

theorem call_not_connected_witness:
  "call shared_key ''health'' (JObj []) handshaking = (Resolved JNull, handshaking)"
proof -
  have "case map_of (gateways handshaking) shared_key of
          None \<Rightarrow> True | Some gw \<Rightarrow> gw_state gw \<noteq> connected"
    by code_simp
  then show ?thesis by (rule call_not_connected)
qed

subsection \<open>Responses that match no pending request\<close>

text \<open>
  C1, as stated: a \<open>res\<close> frame whose id has no entry in the pending map changes no agent
  record. The response to the \<open>connect\<close> request is such a frame, since that request is
  sent without a pending entry, and it is recognised by its payload alone: on a link in
  the middle of the handshake it rewrites the record of every agent of the link.
\<close>

theorem hello_ok_counterexample:
  "getp hello_ok ''type'' = JStr ''res''
   \<and> pendingTimer (pending handshaking) (getp hello_ok ''id'') = None
   \<and> state (snd (handleMessage shared_key hello_ok 5 handshaking)) \<noteq> state handshaking"
  by code_simp

text \<open>
  C1, amended: a \<open>res\<close> frame whose id has no entry in the pending map, and which is
  neither a successful \<open>hello-ok\<close> response nor a failed response carrying an error,
  returns without an exception and leaves the whole collector, so every agent record,
  unchanged.
\<close>

theorem unmatched_res_noop:
  assumes "getp msg ''type'' = JStr ''res''"
    and "pendingTimer (pending c) (getp msg ''id'') = None"
    and "\<not> (truthy (getp msg ''ok'') \<and> optp (getp msg ''payload'') ''type'' = JStr ''hello-ok'')"
    and "\<not> (\<not> truthy (getp msg ''ok'') \<and> truthy (getp msg ''error''))"
  shows "handleMessage gwKey msg now c = (Returned, c)"
proof -
  from assms(1) have "\<not> nullish msg" by (cases msg) auto
  with assms show ?thesis
    by (auto simp add: handleMessage_def handleRes_def)
qed

theorem unmatched_res_noop_witness:
  "handleMessage shared_key late_res 5 handshaking = (Returned, handshaking)"
proof -
  have 1: "getp late_res ''type'' = JStr ''res''" by code_simp
  have 2: "pendingTimer (pending handshaking) (getp late_res ''id'') = None" by code_simp
  have 3: "\<not> (truthy (getp late_res ''ok'') \<and> optp (getp late_res ''payload'') ''type'' = JStr ''hello-ok'')"
    by code_simp
  have 4: "\<not> (\<not> truthy (getp late_res ''ok'') \<and> truthy (getp late_res ''error''))" by code_simp
  show ?thesis by (rule unmatched_res_noop [OF 1 2 3 4])
qed

subsection \<open>Merging into state records\<close>

lemma merge_obj_map_of: "map_of (merge_obj cur p) = map_of cur ++ map_of (rev p)"
  unfolding merge_obj_def
proof (induction p arbitrary: cur)
  case Nil
  show ?case by simp
next
  case (Cons x xs)
  obtain k v where x: "x = (k, v)" by (cases x)
  show ?case
    by (rule ext) (simp add: Cons.IH x update_conv' map_add_def split: option.splits)
qed

lemma updateState_frame [simp]:
  "gateways (updateState i p c) = gateways c"
  "timers (updateState i p c) = timers c"
  "nextTimer (updateState i p c) = nextTimer c"
  "pending (updateState i p c) = pending c"
  by (simp_all add: updateState_def Let_def)

lemma updateAll_snoc: "updateAll (as @ [a]) p c = updateState (a_id a) p (updateAll as p c)"
  by (simp add: updateAll_def)

lemma updateAll_frame [simp]:
  "gateways (updateAll as p c) = gateways c"
  "timers (updateAll as p c) = timers c"
  "nextTimer (updateAll as p c) = nextTimer c"
  "pending (updateAll as p c) = pending c"
  by (induction as rule: rev_induct) (simp_all add: updateAll_snoc, simp_all add: updateAll_def)

lemma stateField_updateState_same:
  assumes "map_of (rev p) name = Some v"
  shows "stateField (updateState i p c) i name = v"
  using assms
  by (simp add: stateField_def updateState_def Let_def update_conv' merge_obj_map_of map_add_def)



subsection \<open>Reconnect timers\<close>



lemma scheduleReconnect_state [simp]: "state (scheduleReconnect gwKey c) = state c"
  by (simp add: scheduleReconnect_def setTimeout_def clearTimeout_def split: option.splits prod.splits)

lemma stateField_scheduleReconnect [simp]:
  "stateField (scheduleReconnect gwKey c) i name = stateField c i name"
  by (simp add: stateField_def)


subsection \<open>Dropped links\<close>






subsection \<open>The steps of loadConfig\<close>

lemma pruneStep_gateways [simp]: "gateways (fold (pruneStep ids) L c) = gateways c"
  by (induction L arbitrary: c) (simp_all add: pruneStep_def)

lemma pruneStep_state:
  "state (pruneStep ids i c) = (if i \<in> set ids then state c else AList.delete i (state c))"
  by (simp add: pruneStep_def)

lemma prune_state:
  "state (fold (pruneStep ids) L c) = filter (\<lambda>p. fst p \<in> set ids \<or> fst p \<notin> set L) (state c)"
proof (induction L arbitrary: c)
  case Nil
  show ?case by simp
next
  case (Cons i L)
  have "state (fold (pruneStep ids) (i # L) c)
        = filter (\<lambda>p. fst p \<in> set ids \<or> fst p \<notin> set L) (state (pruneStep ids i c))"
    by (simp add: Cons.IH)
  also have "\<dots> = filter (\<lambda>p. fst p \<in> set ids \<or> fst p \<notin> set (i # L)) (state c)"
    by (auto simp add: pruneStep_state AList.delete_eq intro!: filter_cong)
  finally show ?case .
qed

lemma addAgent_state:
  "state (addAgent a c) =
     (if map_of (state c) (a_id a) = None then AList.update (a_id a) (initialState a) (state c)
      else state c)"
  by (auto simp add: addAgent_def Let_def)

lemma addAgent_gateways:
  "gateways (addAgent a c) =
     AList.map_entry (gwKeyOf a) (\<lambda>gw. gw\<lparr> gw_agents := gw_agents gw @ [a] \<rparr>)
       (if map_of (gateways c) (gwKeyOf a) = None
        then AList.update (gwKeyOf a) (newGateway (nextRef c) a) (gateways c)
        else gateways c)"
  by (simp add: addAgent_def Let_def)

lemma fold_addAgent_state_keys:
  "fst ` set (state (fold addAgent as c)) = fst ` set (state c) \<union> a_id ` set as"
proof (induction as arbitrary: c)
  case Nil
  show ?case by simp
next
  case (Cons a as)
  have "map_of (state c) (a_id a) \<noteq> None \<Longrightarrow> a_id a \<in> fst ` set (state c)"
    by (metis domIff dom_map_of_conv_image_fst)
  then show ?case
    by (auto simp add: Cons.IH addAgent_state dom_update)
qed

lemma fold_addAgent_state_distinct:
  "distinct (map fst (state c)) \<Longrightarrow> distinct (map fst (state (fold addAgent as c)))"
  by (induction as arbitrary: c) (simp_all add: addAgent_state distinct_update)

lemma addAgent_state_kept:
  "map_of (state c) i = Some s \<Longrightarrow> map_of (state (addAgent a c)) i = Some s"
  by (auto simp add: addAgent_state update_conv')

lemma fold_addAgent_state_kept:
  "map_of (state c) i = Some s \<Longrightarrow> map_of (state (fold addAgent as c)) i = Some s"
  by (induction as arbitrary: c) (simp_all add: addAgent_state_kept)

lemma fold_addAgent_state_new:
  assumes "map_of (state c) i = None" and "i \<in> a_id ` set as"
  shows "\<exists>a \<in> set as. a_id a = i \<and> map_of (state (fold addAgent as c)) i = Some (initialState a)"
  using assms
proof (induction as arbitrary: c)
  case Nil
  then show ?case by simp
next
  case (Cons a as)
  show ?case
  proof (cases "a_id a = i")
    case True
    with Cons.prems(1) have "map_of (state (addAgent a c)) i = Some (initialState a)"
      by (simp add: addAgent_state update_conv')
    then have "map_of (state (fold addAgent (a # as) c)) i = Some (initialState a)"
      by (simp add: fold_addAgent_state_kept)
    with True show ?thesis by auto
  next
    case False
    with Cons.prems have "map_of (state (addAgent a c)) i = None" "i \<in> a_id ` set as"
      by (auto simp add: addAgent_state update_conv')
    from Cons.IH [OF this] show ?thesis by auto
  qed
qed

lemma removeStep_state [simp]: "state (fold removeStep L c) = state c"
  by (induction L arbitrary: c)
     (simp_all add: removeStep_def clearTimeout_def Let_def split: option.splits)

lemma loadBody_state:
  "state (loadBody cfg c) =
     state (fold addAgent (cfg_agents cfg)
       (c\<lparr> state := filter (\<lambda>p. fst p \<in> a_id ` set (cfg_agents cfg) \<or> fst p \<notin> fst ` set (agents c))
                      (state c) \<rparr>))"
proof -
  have same: "state (fold addAgent as c1) = state (fold addAgent as c2)"
    if "state c1 = state c2" for as c1 c2
    using that by (induction as arbitrary: c1 c2) (simp_all add: addAgent_state)
  show ?thesis
    unfolding loadBody_def Let_def removeStep_state
    by (rule same) (simp add: prune_state)
qed

subsection \<open>State records after a load\<close>

lemma map_of_filter_key:
  "map_of (filter (\<lambda>p. Q (fst p)) xs) k = (if Q k then map_of xs k else None)"
  by (induction xs) auto

lemma initialState_fields:
  "getp (JObj (initialState a)) ''online'' = JBool False"
  "name \<in> set [''health'', ''sessions'', ''usage'', ''heartbeat'', ''channels'', ''cron'',
               ''error'', ''lastSeen''] \<Longrightarrow> getp (JObj (initialState a)) name = JNull"
  by (auto simp add: initialState_def)

text \<open>
  C9. The state map is a JavaScript \<open>Map\<close>, so its keys are distinct, and records are
  only ever made for agents of the agents map. After a configuration load that returns,
  the state map holds exactly one record for each configured agent id and no other;
  a record that the load had to create has \<open>online\<close> false and health, sessions, usage,
  heartbeat, channels, cron, error and lastSeen null; a record that was there is kept.
\<close>

theorem loadConfig_state_records:
  assumes dist: "distinct (map fst (state c))"
    and sub: "list_all (\<lambda>p. fst p \<in> fst ` set (agents c)) (state c)"
    and load: "loadConfig (Some cfg) c = Inr c'"
  shows "distinct (map fst (state c'))
         \<and> fst ` set (state c') = a_id ` set (cfg_agents cfg)
         \<and> (\<forall>a \<in> set (cfg_agents cfg). map_of (state c) (a_id a) = None \<longrightarrow>
               stateField c' (a_id a) ''online'' = JBool False
               \<and> (\<forall>name \<in> set [''health'', ''sessions'', ''usage'', ''heartbeat'', ''channels'',
                                 ''cron'', ''error'', ''lastSeen''].
                     stateField c' (a_id a) name = JNull))
         \<and> (\<forall>a \<in> set (cfg_agents cfg). \<forall>s. map_of (state c) (a_id a) = Some s \<longrightarrow>
               map_of (state c') (a_id a) = Some s)"
proof -
  let ?as = "cfg_agents cfg"
  let ?Q = "\<lambda>k. k \<in> a_id ` set ?as \<or> k \<notin> fst ` set (agents c)"
  let ?c0 = "c\<lparr> state := filter (\<lambda>p. ?Q (fst p)) (state c) \<rparr>"
  from load have c': "c' = loadBody cfg c" by (simp add: loadConfig_def)
  have st: "state c' = state (fold addAgent ?as ?c0)"
    unfolding c' by (rule loadBody_state)
  define st0 where "st0 = state ?c0"
  have d0: "distinct (map fst st0)"
    using dist by (simp add: st0_def distinct_map_filter)
  have k0: "fst ` set st0 \<subseteq> a_id ` set ?as"
    using sub by (auto simp add: st0_def list_all_iff)
  have m0: "map_of st0 (a_id a) = map_of (state c) (a_id a)" if "a \<in> set ?as" for a
    using that map_of_filter_key [of ?Q "state c" "a_id a"] by (simp add: st0_def)
  have 1: "distinct (map fst (state c'))"
    unfolding st using d0 unfolding st0_def by (rule fold_addAgent_state_distinct)
  have 2: "fst ` set (state c') = a_id ` set ?as"
    unfolding st fold_addAgent_state_keys using k0 unfolding st0_def by blast
  have 3: "stateField c' (a_id a) ''online'' = JBool False
           \<and> (\<forall>name \<in> set [''health'', ''sessions'', ''usage'', ''heartbeat'', ''channels'',
                             ''cron'', ''error'', ''lastSeen''].
                 stateField c' (a_id a) name = JNull)"
    if a: "a \<in> set ?as" and new: "map_of (state c) (a_id a) = None" for a
  proof -
    from new have "map_of (state ?c0) (a_id a) = None"
      using m0 [OF a] unfolding st0_def by simp
    moreover from a have "a_id a \<in> a_id ` set ?as" by simp
    ultimately obtain b where "map_of (state c') (a_id a) = Some (initialState b)"
      unfolding st using fold_addAgent_state_new by blast
    then show ?thesis
      using initialState_fields [where a = b] by (simp add: stateField_def)
  qed
  have 4: "map_of (state c') (a_id a) = Some s"
    if a: "a \<in> set ?as" and old: "map_of (state c) (a_id a) = Some s" for a s
  proof -
    from old have "map_of (state ?c0) (a_id a) = Some s"
      using m0 [OF a] unfolding st0_def by simp
    then show ?thesis unfolding st by (rule fold_addAgent_state_kept)
  qed
  from 1 2 3 4 show ?thesis by blast
qed

theorem loadConfig_state_records_witness:
  "map fst (state (loadBody reloaded_cfg loaded)) = [''bob'', ''carol'']
   \<and> stateField (loadBody reloaded_cfg loaded) ''carol'' ''online'' = JBool False
   \<and> stateField (loadBody reloaded_cfg loaded) ''carol'' ''health'' = JNull
   \<and> map_of (state (loadBody reloaded_cfg loaded)) ''bob'' = map_of (state loaded) ''bob''"
proof -
  have 1: "distinct (map fst (state loaded))" by code_simp
  have 2: "list_all (\<lambda>p. fst p \<in> fst ` set (agents loaded)) (state loaded)" by code_simp
  have 3: "loadConfig (Some reloaded_cfg) loaded = Inr (loadBody reloaded_cfg loaded)"
    by (simp add: loadConfig_def)
  have 4: "map fst (state (loadBody reloaded_cfg loaded)) = [''bob'', ''carol'']" by code_simp
  have 5: "map_of (state (loadBody reloaded_cfg loaded)) ''bob'' = map_of (state loaded) ''bob''"
    by code_simp
  have 6: "carol \<in> set (cfg_agents reloaded_cfg)" "a_id carol = ''carol''"
    "map_of (state loaded) ''carol'' = None" by code_simp+
  from loadConfig_state_records [OF 1 2 3]
  have "\<forall>a \<in> set (cfg_agents reloaded_cfg). map_of (state loaded) (a_id a) = None \<longrightarrow>
          stateField (loadBody reloaded_cfg loaded) (a_id a) ''online'' = JBool False
          \<and> (\<forall>name \<in> set [''health'', ''sessions'', ''usage'', ''heartbeat'', ''channels'',
                            ''cron'', ''error'', ''lastSeen''].
                stateField (loadBody reloaded_cfg loaded) (a_id a) name = JNull)"
    by blast
  from bspec [OF this 6(1)] 6(2,3)
  have "stateField (loadBody reloaded_cfg loaded) ''carol'' ''online'' = JBool False
        \<and> stateField (loadBody reloaded_cfg loaded) ''carol'' ''health'' = JNull"
    by simp
  with 4 5 show ?thesis by simp
qed

subsection \<open>The gateways left by loadConfig\<close>

lemma agentsOf_cleared:
  assumes "gateways c = map (\<lambda>(k, gw). (k, gw\<lparr> gw_agents := [] \<rparr>)) G0"
  shows "agentsOf c k = []"
proof -
  have "map_of (map (\<lambda>(k, gw). (k, gw\<lparr> gw_agents := [] \<rparr>)) G) k
        = map_option (\<lambda>gw. gw\<lparr> gw_agents := [] \<rparr>) (map_of G k)" for G :: "(string \<times> gateway) list"
    by (induction G) auto
  then show ?thesis
    by (simp add: agentsOf_def assms split: option.splits)
qed

lemma addAgent_gateway_keys:
  "fst ` set (gateways (addAgent a c)) = insert (gwKeyOf a) (fst ` set (gateways c))"
proof (cases "map_of (gateways c) (gwKeyOf a)")
  case None
  then show ?thesis by (simp add: addAgent_gateways dom_map_entry dom_update)
next
  case (Some g)
  then have "gwKeyOf a \<in> fst ` set (gateways c)"
    by (metis domI dom_map_of_conv_image_fst)
  with Some show ?thesis by (auto simp add: addAgent_gateways dom_map_entry)
qed

lemma addAgent_gateway_distinct:
  "distinct (map fst (gateways c)) \<Longrightarrow> distinct (map fst (gateways (addAgent a c)))"
  by (simp add: addAgent_gateways distinct_map_entry distinct_update)

lemma addAgent_agentsOf:
  "agentsOf (addAgent a c) k = agentsOf c k @ (if gwKeyOf a = k then [a] else [])"
  by (auto simp add: agentsOf_def addAgent_gateways map_of_map_entry update_conv' newGateway_def
           split: option.splits)

lemma fold_addAgent_gateway_keys:
  "fst ` set (gateways (fold addAgent as c)) = fst ` set (gateways c) \<union> gwKeyOf ` set as"
  by (induction as arbitrary: c) (auto simp add: addAgent_gateway_keys)

lemma fold_addAgent_gateway_distinct:
  "distinct (map fst (gateways c)) \<Longrightarrow> distinct (map fst (gateways (fold addAgent as c)))"
  by (induction as arbitrary: c) (simp_all add: addAgent_gateway_distinct)

lemma fold_addAgent_agentsOf:
  "agentsOf (fold addAgent as c) k = agentsOf c k @ filter (\<lambda>a. gwKeyOf a = k) as"
  by (induction as arbitrary: c) (simp_all add: addAgent_agentsOf)

lemma removeStep_gateways:
  "gateways (removeStep kg c) =
     (if gw_agents (snd kg) = [] then AList.delete (fst kg) (gateways c) else gateways c)"
  by (simp add: removeStep_def clearTimeout_def Let_def split: option.splits)

lemma fold_removeStep_gateways:
  "gateways (fold removeStep L c)
   = filter (\<lambda>kg. fst kg \<notin> fst ` {x \<in> set L. gw_agents (snd x) = []}) (gateways c)"
proof (induction L arbitrary: c)
  case Nil
  show ?case by simp
next
  case (Cons x L)
  have "gateways (fold removeStep (x # L) c)
        = filter (\<lambda>kg. fst kg \<notin> fst ` {x \<in> set L. gw_agents (snd x) = []})
            (gateways (removeStep x c))"
    by (simp add: Cons.IH)
  also have "\<dots> = filter (\<lambda>kg. fst kg \<notin> fst ` {y \<in> set (x # L). gw_agents (snd y) = []}) (gateways c)"
    by (auto simp add: removeStep_gateways AList.delete_eq intro!: filter_cong)
  finally show ?case .
qed

lemma removeEmpty_distinct:
  assumes "distinct (map fst (gateways c))"
  shows "gateways (fold removeStep (gateways c) c)
         = filter (\<lambda>kg. gw_agents (snd kg) \<noteq> []) (gateways c)"
proof -
  have "(fst kg \<notin> fst ` {x \<in> set (gateways c). gw_agents (snd x) = []}) = (gw_agents (snd kg) \<noteq> [])"
    if "kg \<in> set (gateways c)" for kg
  proof -
    have "snd x = snd kg" if "x \<in> set (gateways c)" "fst x = fst kg" for x
      using that \<open>kg \<in> set (gateways c)\<close> assms
      by (metis eq_key_imp_eq_value prod.collapse)
    with that show ?thesis by force
  qed
  then show ?thesis
    unfolding fold_removeStep_gateways by (auto intro!: filter_cong)
qed

lemma loadBody_gateways:
  assumes "distinct (map fst (gateways c))"
  shows "\<exists>c3. gateways (loadBody cfg c) = filter (\<lambda>kg. gw_agents (snd kg) \<noteq> []) (gateways c3)
           \<and> distinct (map fst (gateways c3))
           \<and> fst ` set (gateways c3) = fst ` set (gateways c) \<union> gwKeyOf ` set (cfg_agents cfg)
           \<and> (\<forall>k. agentsOf c3 k = filter (\<lambda>a. gwKeyOf a = k) (cfg_agents cfg))"
proof -
  let ?c1 = "fold (pruneStep (map a_id (cfg_agents cfg))) (map fst (agents c)) (c\<lparr> config := Some cfg \<rparr>)"
  let ?c2 = "?c1\<lparr> gateways := map (\<lambda>(k, gw). (k, gw\<lparr> gw_agents := [] \<rparr>)) (gateways ?c1) \<rparr>"
  let ?c3 = "fold addAgent (cfg_agents cfg) ?c2"
  have keys2: "map fst (gateways ?c2) = map fst (gateways c)"
    by (simp add: case_prod_beta comp_def)
  have d3: "distinct (map fst (gateways ?c3))"
    by (rule fold_addAgent_gateway_distinct) (simp only: keys2 assms)
  have k3: "fst ` set (gateways ?c3) = fst ` set (gateways c) \<union> gwKeyOf ` set (cfg_agents cfg)"
  proof -
    have "set (map fst (gateways ?c2)) = set (map fst (gateways c))"
      by (simp only: keys2)
    then have "fst ` set (gateways ?c2) = fst ` set (gateways c)"
      by (simp only: set_map)
    then show ?thesis
      by (simp only: fold_addAgent_gateway_keys)
  qed
  have a3: "\<forall>k. agentsOf ?c3 k = filter (\<lambda>a. gwKeyOf a = k) (cfg_agents cfg)"
  proof -
    have "agentsOf ?c2 k = []" for k
      by (rule agentsOf_cleared [where ?G0.0 = "gateways ?c1"]) simp
    then show ?thesis by (simp only: fold_addAgent_agentsOf append_Nil simp_thms)
  qed
  have "loadBody cfg c = fold removeStep (gateways ?c3) ?c3"
    by (simp add: loadBody_def Let_def)
  then have "gateways (loadBody cfg c) = filter (\<lambda>kg. gw_agents (snd kg) \<noteq> []) (gateways ?c3)"
    by (simp only: removeEmpty_distinct [OF d3])
  with d3 k3 a3 show ?thesis by blast
qed

text \<open>
  C2, as stated: after a configuration load the number of gateway objects equals the
  number of distinct (host, port, token) triples of the configuration. The key of a
  gateway holds only the first eight characters of the token: two agents on the same host
  and port whose tokens differ later share one gateway object.
\<close>

theorem token_prefix_counterexample:
  "length (gateways (loadBody prefix_cfg new_collector)) = 1
   \<and> card (endpoint ` set (cfg_agents prefix_cfg)) = 2"
proof -
  have 1: "length (gateways (loadBody prefix_cfg new_collector)) = 1" by code_simp
  have 2: "cfg_agents prefix_cfg = [alice, carol]" by (simp add: prefix_cfg_def)
  have 3: "endpoint alice \<noteq> endpoint carol" by code_simp
  from 3 have "card (endpoint ` set [alice, carol]) = 2" by simp
  with 1 2 show ?thesis by simp
qed

text \<open>
  C2, amended. The gateways map is a JavaScript \<open>Map\<close>, so its keys are distinct. After a
  configuration load that returns, the gateways map has one object for each distinct
  gateway key \<open>host:port:token[0..8]\<close> of the configuration and no other; their number
  is at most the number of configured agents; the object under the key of a configured
  agent lists exactly the configured agents with that key, in the order of the file, so
  that all agents with identical (host, port, token) are on one and the same object.
\<close>

theorem loadConfig_gateways:
  assumes dist: "distinct (map fst (gateways c))"
    and load: "loadConfig (Some cfg) c = Inr c'"
  shows "distinct (map fst (gateways c'))
         \<and> fst ` set (gateways c') = gwKeyOf ` set (cfg_agents cfg)
         \<and> length (gateways c') = card (gwKeyOf ` set (cfg_agents cfg))
         \<and> length (gateways c') \<le> length (cfg_agents cfg)
         \<and> (\<forall>a \<in> set (cfg_agents cfg).
               agentsOf c' (gwKeyOf a) = filter (\<lambda>b. gwKeyOf b = gwKeyOf a) (cfg_agents cfg))
         \<and> (\<forall>a \<in> set (cfg_agents cfg). \<forall>b \<in> set (cfg_agents cfg).
               endpoint a = endpoint b \<longrightarrow>
               gwKeyOf a = gwKeyOf b \<and> a \<in> set (agentsOf c' (gwKeyOf a))
               \<and> b \<in> set (agentsOf c' (gwKeyOf a)))"
proof -
  let ?as = "cfg_agents cfg"
  from load have c': "c' = loadBody cfg c" by (simp add: loadConfig_def)
  from loadBody_gateways [OF dist, of cfg] obtain c3 where
    g: "gateways c' = filter (\<lambda>kg. gw_agents (snd kg) \<noteq> []) (gateways c3)"
    and d3: "distinct (map fst (gateways c3))"
    and k3: "fst ` set (gateways c3) = fst ` set (gateways c) \<union> gwKeyOf ` set ?as"
    and a3: "\<And>k. agentsOf c3 k = filter (\<lambda>a. gwKeyOf a = k) ?as"
    unfolding c' by blast
  have 1: "distinct (map fst (gateways c'))"
    unfolding g using d3 by (rule distinct_map_filter)
  have mem: "(k, gw) \<in> set (gateways c3) \<Longrightarrow> agentsOf c3 k = gw_agents gw" for k gw
    using d3 by (simp add: agentsOf_def)
  have 2: "fst ` set (gateways c') = gwKeyOf ` set ?as"
  proof
    show "fst ` set (gateways c') \<subseteq> gwKeyOf ` set ?as"
    proof
      fix k assume "k \<in> fst ` set (gateways c')"
      then obtain gw where "(k, gw) \<in> set (gateways c3)" "gw_agents gw \<noteq> []"
        unfolding g by auto
      with mem have "filter (\<lambda>a. gwKeyOf a = k) ?as \<noteq> []" by (simp add: a3 [symmetric])
      then show "k \<in> gwKeyOf ` set ?as" by (auto simp add: filter_empty_conv)
    qed
    show "gwKeyOf ` set ?as \<subseteq> fst ` set (gateways c')"
    proof
      fix k assume k: "k \<in> gwKeyOf ` set ?as"
      with k3 have "k \<in> fst ` set (gateways c3)" by blast
      then obtain gw where in3: "(k, gw) \<in> set (gateways c3)" by force
      from k have "filter (\<lambda>a. gwKeyOf a = k) ?as \<noteq> []" by (auto simp add: filter_empty_conv)
      with mem [OF in3] have "gw_agents gw \<noteq> []" by (simp add: a3)
      with in3 show "k \<in> fst ` set (gateways c')" unfolding g by force
    qed
  qed
  have 3: "length (gateways c') = card (gwKeyOf ` set ?as)"
    using distinct_card [OF 1] 2 by simp
  have 4: "length (gateways c') \<le> length ?as"
    unfolding 3 by (rule order_trans [OF card_image_le card_length]) simp
  have 5: "agentsOf c' (gwKeyOf a) = filter (\<lambda>b. gwKeyOf b = gwKeyOf a) ?as" if "a \<in> set ?as" for a
  proof -
    from that have "gwKeyOf a \<in> fst ` set (gateways c')" unfolding 2 by simp
    then obtain gw where in': "(gwKeyOf a, gw) \<in> set (gateways c')" by auto
    then have "(gwKeyOf a, gw) \<in> set (gateways c3)" unfolding g by simp
    from mem [OF this] have "gw_agents gw = filter (\<lambda>b. gwKeyOf b = gwKeyOf a) ?as"
      by (simp only: a3)
    moreover from in' 1 have "map_of (gateways c') (gwKeyOf a) = Some gw" by simp
    ultimately show ?thesis by (simp add: agentsOf_def)
  qed
  have 6: "gwKeyOf a = gwKeyOf b \<and> a \<in> set (agentsOf c' (gwKeyOf a)) \<and> b \<in> set (agentsOf c' (gwKeyOf a))"
    if "a \<in> set ?as" "b \<in> set ?as" "endpoint a = endpoint b" for a b
  proof -
    from that(3) have "gwKeyOf a = gwKeyOf b" by (simp add: endpoint_def gwKeyOf_def)
    with that(1,2) show ?thesis by (simp add: 5)
  qed
  from 1 2 3 4 5 6 show ?thesis by blast
qed

theorem loadConfig_gateways_witness:
  "length (gateways loaded) = 1
   \<and> agentsOf loaded (gwKeyOf alice) = [alice, bob]
   \<and> endpoint alice = endpoint bob"
proof -
  have 1: "distinct (map fst (gateways new_collector))" by code_simp
  have 2: "loadConfig (Some \<lparr> cfg_agents = [alice, bob] \<rparr>) new_collector = Inr loaded"
    by (simp add: loadConfig_def loaded_def)
  have "gwKeyOf alice = gwKeyOf bob" by code_simp
  then have 3: "card (gwKeyOf ` set [alice, bob]) = 1" by simp
  have 4: "filter (\<lambda>b. gwKeyOf b = gwKeyOf alice) [alice, bob] = [alice, bob]" by code_simp
  have 5: "endpoint alice = endpoint bob" by code_simp
  have cfg: "cfg_agents \<lparr> cfg_agents = [alice, bob] \<rparr> = [alice, bob]" by simp
  have m: "alice \<in> set [alice, bob]" by simp
  note T = loadConfig_gateways [OF 1 2, unfolded cfg]
  from T have "length (gateways loaded) = card (gwKeyOf ` set [alice, bob])" by blast
  with 3 have 6: "length (gateways loaded) = 1" by (simp only:)
  from T m have "agentsOf loaded (gwKeyOf alice) = filter (\<lambda>b. gwKeyOf b = gwKeyOf alice) [alice, bob]"
    by blast
  with 4 have 7: "agentsOf loaded (gwKeyOf alice) = [alice, bob]" by (simp only:)
  from 5 6 7 show ?thesis by blast
qed

subsection \<open>Splitting the session list\<close>

lemma sessionTest_keyStartsWith:
  assumes "sessionTest p s = Some b" and "p \<noteq> []"
  shows "b = keyStartsWith p s"
  using assms
  by (cases "getp s ''key''")
     (auto simp add: sessionTest_def keyStartsWith_def startsWith_def split: if_splits)

lemma filterSessions_filter:
  assumes "filterSessions p xs = Some r" and "p \<noteq> []"
  shows "r = filter (keyStartsWith p) xs"
  using assms(1)
proof (induction xs arbitrary: r)
  case Nil
  then show ?case by simp
next
  case (Cons s ss)
  from Cons.prems obtain b r' where b: "sessionTest p s = Some b"
    and r': "filterSessions p ss = Some r'" and r: "r = (if b then s # r' else r')"
    by (auto split: option.splits)
  from sessionTest_keyStartsWith [OF b assms(2)] Cons.IH [OF r'] r show ?case by simp
qed

lemma sessionPrefix_nonempty: "sessionPrefix k \<noteq> []"
  by (simp add: sessionPrefix_def)

lemma sessionsPart_array:
  assumes "truthy sessions" and "isArray (allSessionsOf sessions)"
    and "sessionsPart sessions k = Some s"
  shows "s = [(''sessions'',
               JObj (AList.update ''sessions''
                 (JArr (filter (keyStartsWith (sessionPrefix k)) (elems (allSessionsOf sessions))))
                 (spread sessions)))]"
  using assms filterSessions_filter [OF _ sessionPrefix_nonempty]
  by (auto simp add: sessionsPart_def Let_def split: option.splits)

lemma healthPart_shape:
  "healthPart h k = Some u \<Longrightarrow> u = [] \<or> (\<exists>v. u = [(''health'', v)])"
  by (auto simp add: healthPart_def split: if_splits option.splits)

lemma agentUpdate_sessions:
  assumes "agentUpdate res n now a = Some u"
    and "sessionsPart (r_sessions res) (agentKeyOf a) = Some [(''sessions'', X)]"
  shows "map_of (rev u) ''sessions'' = Some X"
proof -
  from assms obtain h where h: "healthPart (r_health res) (agentKeyOf a) = Some h"
    and u: "u = [(''lastSeen'', JNum (of_int now))] @ h @ [(''sessions'', X)]
              @ usagePart (r_usage res) n @ plainPart ''heartbeat'' (r_heartbeat res)
              @ plainPart ''channels'' (r_channels res) @ plainPart ''cron'' (r_cron res)"
    by (auto simp add: agentUpdate_def split: option.splits)
  from healthPart_shape [OF h] show ?thesis
    unfolding u by (auto simp add: usagePart_def plainPart_def)
qed

lemma splitAgents_other:
  assumes "\<forall>b \<in> set as. a_id b \<noteq> i" and "splitAgents res n now as c = (out, c')"
  shows "map_of (state c') i = map_of (state c) i"
  using assms
proof (induction as arbitrary: c)
  case Nil
  then show ?case by simp
next
  case (Cons x xs)
  show ?case
  proof (cases "agentUpdate res n now x")
    case None
    with Cons.prems show ?thesis by simp
  next
    case (Some u)
    with Cons.prems have "splitAgents res n now xs (updateState (a_id x) u c) = (out, c')"
      and "\<forall>b \<in> set xs. a_id b \<noteq> i" and "a_id x \<noteq> i" by auto
    with Cons.IH show ?thesis
      by (simp add: updateState_def Let_def update_conv')
  qed
qed

lemma splitAgents_field:
  assumes "distinct (map a_id as)" and "a \<in> set as"
    and "splitAgents res n now as c = (Returned, c')"
  shows "\<exists>u. agentUpdate res n now a = Some u
           \<and> (\<forall>name v. map_of (rev u) name = Some v \<longrightarrow> stateField c' (a_id a) name = v)"
  using assms
proof (induction as arbitrary: c)
  case Nil
  then show ?case by simp
next
  case (Cons x xs)
  from Cons.prems(3) obtain u where u: "agentUpdate res n now x = Some u"
    and rest: "splitAgents res n now xs (updateState (a_id x) u c) = (Returned, c')"
    by (auto split: option.splits)
  show ?case
  proof (cases "a = x")
    case True
    from Cons.prems(1) have "a_id x \<notin> a_id ` set xs" by simp
    then have "\<forall>b \<in> set xs. a_id b \<noteq> a_id x" by (metis image_eqI)
    from splitAgents_other [OF this rest]
    have "stateField c' (a_id x) name = stateField (updateState (a_id x) u c) (a_id x) name" for name
      by (simp add: stateField_def)
    with u True show ?thesis
      by (auto simp add: stateField_updateState_same)
  next
    case False
    with Cons.prems have "a \<in> set xs" "distinct (map a_id xs)" by auto
    from Cons.IH [OF this(2) this(1) rest] show ?thesis .
  qed
qed

lemma prefix_disjoint:
  assumes "startsWith k (sessionPrefix x)" and "startsWith k (sessionPrefix y)"
    and "CHR '':'' \<notin> set x" and "CHR '':'' \<notin> set y"
  shows "x = y"
proof -
  from assms(1) obtain r1 where 1: "k = ''agent:'' @ x @ '':'' @ r1"
    unfolding startsWith_def sessionPrefix_def by (metis append.assoc append_take_drop_id)
  from assms(2) obtain r2 where 2: "k = ''agent:'' @ y @ '':'' @ r2"
    unfolding startsWith_def sessionPrefix_def by (metis append.assoc append_take_drop_id)
  from 1 2 have "x @ CHR '':'' # r1 = y @ CHR '':'' # r2" by simp
  then have "takeWhile (\<lambda>ch. ch \<noteq> CHR '':'') (x @ CHR '':'' # r1)
             = takeWhile (\<lambda>ch. ch \<noteq> CHR '':'') (y @ CHR '':'' # r2)" by simp
  moreover from assms(3) have "takeWhile (\<lambda>ch. ch \<noteq> CHR '':'') x = x"
    by (auto simp add: takeWhile_eq_all_conv)
  moreover from assms(4) have "takeWhile (\<lambda>ch. ch \<noteq> CHR '':'') y = y"
    by (auto simp add: takeWhile_eq_all_conv)
  ultimately show ?thesis
    using assms(3,4) by (simp add: takeWhile_tail)
qed

text \<open>
  C5, as stated: for agents with distinct gatewayAgentIds the session lists are
  disjoint. The filter is a prefix test, and the prefix of agent \<open>a\<close> is a prefix of the
  prefix of agent \<open>a:b\<close>: the session \<open>agent:a:b:main\<close> lands in the records of both.
\<close>

theorem colon_id_counterexample:
  "agentKeyOf ann \<noteq> agentKeyOf abe
   \<and> sessionsOf (snd (pollResume 0 shared_key (poll_of [session ''agent:a:b:main'']) 9 colon_loaded)) ''a''
       = [session ''agent:a:b:main'']
   \<and> sessionsOf (snd (pollResume 0 shared_key (poll_of [session ''agent:a:b:main'']) 9 colon_loaded)) ''a:b''
       = [session ''agent:a:b:main'']"
  by code_simp

text \<open>
  C5, amended. When the continuation of a poll round returns, on a gateway object that is
  still registered and whose agents have distinct ids, and the \<open>sessions.list\<close> result
  holds an array of sessions, the record of each agent of the link receives exactly the
  sessions of that array whose key is a string starting with
  \<open>agent:<gatewayAgentId>:\<close>, in the order of the array; the lists of two agents
  whose gatewayAgentIds differ and contain no colon have no session in common.
\<close>

theorem poll_sessions_split:
  assumes held: "held r gwKey c = Some g"
    and dist: "distinct (map a_id (gw_agents g))"
    and arr: "truthy (r_sessions res)" "isArray (allSessionsOf (r_sessions res))"
    and ret: "pollResume r gwKey res now c = (Returned, c')"
  shows "(\<forall>a \<in> set (gw_agents g).
            sessionsOf c' (a_id a)
            = filter (keyStartsWith (sessionPrefix (agentKeyOf a)))
                (elems (allSessionsOf (r_sessions res))))
         \<and> (\<forall>a \<in> set (gw_agents g). \<forall>b \<in> set (gw_agents g).
               agentKeyOf a \<noteq> agentKeyOf b \<longrightarrow>
               CHR '':'' \<notin> set (agentKeyOf a) \<longrightarrow> CHR '':'' \<notin> set (agentKeyOf b) \<longrightarrow>
               set (sessionsOf c' (a_id a)) \<inter> set (sessionsOf c' (a_id b)) = {})"
proof -
  let ?xs = "elems (allSessionsOf (r_sessions res))"
  from held ret obtain c1 where
    split: "splitAgents res (length (gw_agents g)) now (gw_agents g) c1 = (Returned, c')"
    by (simp add: pollResume_def Let_def)
  have 1: "sessionsOf c' (a_id a) = filter (keyStartsWith (sessionPrefix (agentKeyOf a))) ?xs"
    if a: "a \<in> set (gw_agents g)" for a
  proof -
    from splitAgents_field [OF dist a split] obtain u where
      u: "agentUpdate res (length (gw_agents g)) now a = Some u"
      and f: "\<And>name v. map_of (rev u) name = Some v \<Longrightarrow> stateField c' (a_id a) name = v"
      by blast
    from u obtain s where s: "sessionsPart (r_sessions res) (agentKeyOf a) = Some s"
      by (auto simp add: agentUpdate_def split: option.splits)
    note s' = s [unfolded sessionsPart_array [OF arr s]]
    from f [OF agentUpdate_sessions [OF u s']] show ?thesis
      by (simp add: sessionsOf_def update_conv')
  qed
  have 2: "set (sessionsOf c' (a_id a)) \<inter> set (sessionsOf c' (a_id b)) = {}"
    if "a \<in> set (gw_agents g)" "b \<in> set (gw_agents g)" "agentKeyOf a \<noteq> agentKeyOf b"
      "CHR '':'' \<notin> set (agentKeyOf a)" "CHR '':'' \<notin> set (agentKeyOf b)" for a b
  proof -
    have "\<not> (keyStartsWith (sessionPrefix (agentKeyOf a)) s
              \<and> keyStartsWith (sessionPrefix (agentKeyOf b)) s)" for s
      using that(3-5) prefix_disjoint
      by (cases "getp s ''key''") (auto simp add: keyStartsWith_def)
    then show ?thesis
      unfolding 1 [OF that(1)] 1 [OF that(2)] by auto
  qed
  from 1 2 show ?thesis by blast
qed

theorem poll_sessions_split_witness:
  "sessionsOf (snd (pollResume 0 shared_key (poll_of [session ''agent:alice:main'', session ''agent:b:main'']) 9
                     handshaking)) ''alice'' = [session ''agent:alice:main'']
   \<and> sessionsOf (snd (pollResume 0 shared_key (poll_of [session ''agent:alice:main'', session ''agent:b:main'']) 9
                       handshaking)) ''bob'' = [session ''agent:b:main'']"
  (is "sessionsOf ?c' _ = _ \<and> _")
proof -
  let ?g = "the (held 0 shared_key handshaking)"
  let ?res = "poll_of [session ''agent:alice:main'', session ''agent:b:main'']"
  have 1: "held 0 shared_key handshaking = Some ?g" by code_simp
  have 2: "distinct (map a_id (gw_agents ?g))" by code_simp
  have 3: "truthy (r_sessions ?res)" "isArray (allSessionsOf (r_sessions ?res))" by code_simp+
  have 4: "pollResume 0 shared_key ?res 9 handshaking = (Returned, ?c')" by code_simp
  have 5: "alice \<in> set (gw_agents ?g)" "bob \<in> set (gw_agents ?g)" by code_simp+
  have 6: "a_id alice = ''alice''" "a_id bob = ''bob''" by code_simp+
  have 7: "filter (keyStartsWith (sessionPrefix (agentKeyOf alice))) (elems (allSessionsOf (r_sessions ?res)))
           = [session ''agent:alice:main'']"
    "filter (keyStartsWith (sessionPrefix (agentKeyOf bob))) (elems (allSessionsOf (r_sessions ?res)))
           = [session ''agent:b:main'']" by code_simp+
  note T = poll_sessions_split [OF 1 2 3 4]
  from T 5(1) have "sessionsOf ?c' (a_id alice)
      = filter (keyStartsWith (sessionPrefix (agentKeyOf alice))) (elems (allSessionsOf (r_sessions ?res)))"
    by blast
  then have a: "sessionsOf ?c' ''alice'' = [session ''agent:alice:main'']"
    by (simp only: 6 7)
  from T 5(2) have "sessionsOf ?c' (a_id bob)
      = filter (keyStartsWith (sessionPrefix (agentKeyOf bob))) (elems (allSessionsOf (r_sessions ?res)))"
    by blast
  then have b: "sessionsOf ?c' ''bob'' = [session ''agent:b:main'']"
    by (simp only: 6 7)
  from a b show ?thesis by blast
qed

section \<open>Properties of the analyzer\<close>

subsection \<open>Files older than the cutoff\<close>

lemma fold_filter_skip:
  assumes "\<And>x acc. \<not> P x \<Longrightarrow> f x acc = acc"
  shows "fold f (filter P xs) acc = fold f xs acc"
  by (induction xs arbitrary: acc) (simp_all add: assms)

lemma analyticsFile_old: "olderThan cutoff f \<Longrightarrow> analyticsFile cutoff agentId f acc = acc"
  by (simp add: olderThan_def analyticsFile_def split: option.splits)

lemma tokenFile_old: "olderThan cutoff f \<Longrightarrow> tokenFile cutoff agentId f acc = acc"
  by (simp add: olderThan_def tokenFile_def split: option.splits)

lemma analyticsAgent_dropOld:
  "analyticsAgent cutoff (d\<lparr> d_files := map_option (filter (\<lambda>f. \<not> olderThan cutoff f)) (d_files d) \<rparr>) acc
   = analyticsAgent cutoff d acc"
proof (cases "d_files d")
  case None
  then show ?thesis by (simp add: analyticsAgent_def)
next
  case (Some fs)
  have "fold (analyticsFile cutoff (d_name d)) (filter (\<lambda>f. \<not> olderThan cutoff f) (filter isTranscript fs)) acc
        = fold (analyticsFile cutoff (d_name d)) (filter isTranscript fs) acc"
    by (rule fold_filter_skip) (simp add: analyticsFile_old)
  with Some show ?thesis
    by (simp add: analyticsAgent_def conj_commute)
qed

lemma tokenAgent_dropOld:
  "tokenAgent cutoff (d\<lparr> d_files := map_option (filter (\<lambda>f. \<not> olderThan cutoff f)) (d_files d) \<rparr>) acc
   = tokenAgent cutoff d acc"
proof (cases "d_files d")
  case None
  then show ?thesis by (simp add: tokenAgent_def)
next
  case (Some fs)
  have "fold (tokenFile cutoff (d_name d)) (filter (\<lambda>f. \<not> olderThan cutoff f) (filter isTranscript fs)) acc
        = fold (tokenFile cutoff (d_name d)) (filter isTranscript fs) acc"
    by (rule fold_filter_skip) (simp add: tokenFile_old)
  with Some show ?thesis
    by (simp add: tokenAgent_def conj_commute)
qed

lemma selectAgents_dropOld:
  "selectAgents flt (dropOld cutoff tree)
   = map (\<lambda>d. d\<lparr> d_files := map_option (filter (\<lambda>f. \<not> olderThan cutoff f)) (d_files d) \<rparr>)
       (selectAgents flt tree)"
  by (cases tree) (simp_all add: selectAgents_def dropOld_def filter_map comp_def)

lemma fold_map_same:
  assumes "\<And>x acc. f (g x) acc = f x acc"
  shows "fold f (map g xs) acc = fold f xs acc"
  by (induction xs arbitrary: acc) (simp_all add: assms)

text \<open>
  C10: a transcript file whose modification time is older than the cutoff contributes
  to no aggregate of \<open>getAnalytics\<close> or \<open>getTokenAnalytics\<close>, whatever the timestamps of
  its records: either function returns the same result on the transcript tree and on the
  tree from which every such file has been removed.
\<close>

theorem stale_files_skipped:
  "getAnalytics rng now flt tree = getAnalytics rng now flt (dropOld (cutoffDate rng now) tree)
   \<and> getTokenAnalytics rng now flt tree
       = getTokenAnalytics rng now flt (dropOld (cutoffDate rng now) tree)"
proof -
  let ?c = "cutoffDate rng now"
  have 1: "fold (analyticsAgent ?c) (selectAgents flt (dropOld ?c tree)) acc
           = fold (analyticsAgent ?c) (selectAgents flt tree) acc" for acc
    unfolding selectAgents_dropOld
    by (rule fold_map_same) (rule analyticsAgent_dropOld)
  have 2: "fold (tokenAgent ?c) (selectAgents flt (dropOld ?c tree)) acc
           = fold (tokenAgent ?c) (selectAgents flt tree) acc" for acc
    unfolding selectAgents_dropOld
    by (rule fold_map_same) (rule tokenAgent_dropOld)
  show ?thesis
    by (simp add: getAnalytics_def getTokenAnalytics_def 1 2)
qed

subsection \<open>Messages older than the cutoff\<close>


















lemma set_update_cases:
  "x \<in> set (AList.update k v m) \<Longrightarrow> x = (k, v) \<or> x \<in> set m"
  by (induction m) (auto split: if_splits)










subsection \<open>The delegation forest\<close>

lemma collectIndex_classified:
  assumes "distinct (map fst m)"
    and "\<forall>ks \<in> set m. s_isMain (snd ks) = isMainKey (fst ks)
            \<and> s_parentKey (snd ks) = parentKeyOf (fst ks) \<and> s_children (snd ks) = []"
  shows "distinct (map fst (collectIndex agentId es m))
         \<and> (\<forall>ks \<in> set (collectIndex agentId es m). s_isMain (snd ks) = isMainKey (fst ks)
            \<and> s_parentKey (snd ks) = parentKeyOf (fst ks) \<and> s_children (snd ks) = [])"
  using assms
proof (induction agentId es m rule: collectIndex.induct)
  case (1 agentId m)
  then show ?case by simp
next
  case (2 agentId key es m)
  then show ?case by simp
next
  case (3 agentId key e es m)
  show ?case
  proof (cases "e_sessionFile e = []")
    case True
    with 3 show ?thesis by simp
  next
    case False
    let ?m = "AList.update key (mkSession agentId key e) m"
    have d: "distinct (map fst ?m)"
      using "3.prems"(1) by (rule distinct_update)
    have c: "\<forall>ks \<in> set ?m. s_isMain (snd ks) = isMainKey (fst ks)
            \<and> s_parentKey (snd ks) = parentKeyOf (fst ks) \<and> s_children (snd ks) = []"
    proof
      fix ks assume "ks \<in> set ?m"
      then have "ks = (key, mkSession agentId key e) \<or> ks \<in> set m"
        by (rule set_update_cases)
      then show "s_isMain (snd ks) = isMainKey (fst ks)
            \<and> s_parentKey (snd ks) = parentKeyOf (fst ks) \<and> s_children (snd ks) = []"
        using "3.prems"(2) by (auto simp add: mkSession_def Let_def)
    qed
    from "3.IH"(2) [OF False d c] False show ?thesis by simp
  qed
qed

lemma collectAgents_classified:
  assumes "distinct (map fst m)"
    and "\<forall>ks \<in> set m. s_isMain (snd ks) = isMainKey (fst ks)
            \<and> s_parentKey (snd ks) = parentKeyOf (fst ks) \<and> s_children (snd ks) = []"
  shows "distinct (map fst (fold collectAgent dirs m))
         \<and> (\<forall>ks \<in> set (fold collectAgent dirs m). s_isMain (snd ks) = isMainKey (fst ks)
            \<and> s_parentKey (snd ks) = parentKeyOf (fst ks) \<and> s_children (snd ks) = [])"
  using assms
proof (induction dirs arbitrary: m)
  case Nil
  then show ?case by simp
next
  case (Cons d dirs)
  have "distinct (map fst (collectAgent d m))
         \<and> (\<forall>ks \<in> set (collectAgent d m). s_isMain (snd ks) = isMainKey (fst ks)
            \<and> s_parentKey (snd ks) = parentKeyOf (fst ks) \<and> s_children (snd ks) = [])"
    using Cons.prems collectIndex_classified [OF Cons.prems]
    by (cases "d_index d") (simp_all add: collectAgent_def)
  then show ?case
    using Cons.IH [of "collectAgent d m"] by simp
qed

lemma map_entry_keys [simp]: "map fst (AList.map_entry k f xs) = map fst xs"
  by (induction xs) auto

lemma attach_keys [simp]: "map fst (fst (attach ks sr)) = map fst (fst sr)"
  by (simp add: attach_def split: option.splits)

lemma fold_attach_keys [simp]: "map fst (fst (fold attach es sr)) = map fst (fst sr)"
  by (induction es arbitrary: sr) simp_all

text \<open>An entry that the second pass pushes to the root list, the keys of the map being \<open>K\<close>.\<close>

lemma attach_roots:
  "snd (attach ks sr)
   = snd sr @ (if s_isMain (snd ks) \<or> (\<exists>pk. s_parentKey (snd ks) = Some pk \<and> pk \<notin> set (map fst (fst sr)))
               then [fst ks] else [])"
proof (cases "s_isMain (snd ks)")
  case True
  then show ?thesis by (simp add: attach_def)
next
  case False
  show ?thesis
  proof (cases "s_parentKey (snd ks)")
    case None
    with False show ?thesis by (simp add: attach_def)
  next
    case (Some pk)
    have "map_of (fst sr) pk = None \<longleftrightarrow> pk \<notin> set (map fst (fst sr))"
      by (simp add: map_of_eq_None_iff)
    with False Some show ?thesis
      by (cases "map_of (fst sr) pk") (simp_all add: attach_def)
  qed
qed

lemma fold_attach_roots:
  "snd (fold attach es sr)
   = snd sr @ map fst (filter (\<lambda>ks. s_isMain (snd ks)
        \<or> (\<exists>pk. s_parentKey (snd ks) = Some pk \<and> pk \<notin> set (map fst (fst sr)))) es)"
proof (induction es arbitrary: sr)
  case Nil
  show ?case by simp
next
  case (Cons e es)
  show ?case
    by (simp add: Cons.IH attach_roots)
qed

lemma attach_children:
  "map_of (fst (attach ks sr)) pk
   = map_option (\<lambda>p. p\<lparr> s_children := s_children p
        @ (if \<not> s_isMain (snd ks) \<and> s_parentKey (snd ks) = Some pk then [fst ks] else []) \<rparr>)
       (map_of (fst sr) pk)"
  by (cases "map_of (fst sr) pk")
     (auto simp add: attach_def map_of_map_entry split: option.splits)

lemma fold_attach_children:
  "map_of (fst (fold attach es sr)) pk
   = map_option (\<lambda>p. p\<lparr> s_children := s_children p
        @ map fst (filter (\<lambda>ks. \<not> s_isMain (snd ks) \<and> s_parentKey (snd ks) = Some pk) es) \<rparr>)
       (map_of (fst sr) pk)"
proof (induction es arbitrary: sr)
  case Nil
  show ?case by (cases "map_of (fst sr) pk") simp_all
next
  case (Cons e es)
  show ?case
    by (cases "map_of (fst sr) pk") (simp_all add: Cons.IH attach_children)
qed

text \<open>
  C4, as stated: every session whose key contains \<open>:subagent:\<close> is attached as a child
  or, failing a parent record, appears as an orphan root. A parent key is derived only
  from a key of at least four segments: the session \<open>x:subagent:1\<close> is in the session
  map but in no root list and in no child list.
\<close>

theorem short_key_counterexample:
  "map fst (sessionMap (getTraces (index_tree [''x:subagent:1'']))) = [''x:subagent:1'']
   \<and> includesStr ''x:subagent:1'' '':subagent:''
   \<and> rootSessions (getTraces (index_tree [''x:subagent:1''])) = []
   \<and> childrenOf (getTraces (index_tree [''x:subagent:1''])) ''x:subagent:1'' = []"
  by code_simp

text \<open>
  C4, amended. In the forest that \<open>getTraces\<close> returns, every session record whose key
  ends with \<open>:main\<close> or has no \<open>:subagent:\<close> in it is a root. Every session record whose
  key has \<open>:subagent:\<close> in it, does not end with \<open>:main\<close> and has at least four segments
  between colons is a child of the record whose key is its first two segments followed
  by \<open>:main\<close>, and is not a root, when there is such a record; when there is none, it
  is a root.
\<close>

theorem delegation_forest:
  assumes k: "k \<in> set (map fst (sessionMap (getTraces tree)))"
  shows "(endsWith k '':main'' \<or> \<not> includesStr k '':subagent:''
            \<longrightarrow> k \<in> set (rootSessions (getTraces tree)))
         \<and> (includesStr k '':subagent:'' \<and> \<not> endsWith k '':main'' \<and> 4 \<le> length (splitColon k)
            \<longrightarrow> (let pk = splitColon k ! 0 @ '':'' @ splitColon k ! 1 @ '':main''
                 in if pk \<in> set (map fst (sessionMap (getTraces tree)))
                    then k \<in> set (childrenOf (getTraces tree) pk)
                         \<and> k \<notin> set (rootSessions (getTraces tree))
                    else k \<in> set (rootSessions (getTraces tree))))"
proof (cases tree)
  case None
  with k show ?thesis by (simp add: getTraces_def)
next
  case (Some dirs)
  define m where "m = fold collectAgent dirs []"
  define sr where "sr = fold attach m (m, [])"
  have cl: "distinct (map fst m)"
    "\<And>ks. ks \<in> set m \<Longrightarrow> s_isMain (snd ks) = isMainKey (fst ks)
            \<and> s_parentKey (snd ks) = parentKeyOf (fst ks) \<and> s_children (snd ks) = []"
    using collectAgents_classified [of "[]" dirs] unfolding m_def by simp_all
  have keys: "map fst (fst sr) = map fst m"
    by (simp add: sr_def)
  have smap: "sessionMap (getTraces tree) = fst sr"
    by (simp add: getTraces_def Some m_def sr_def Let_def)
  have roots: "set (rootSessions (getTraces tree))
               = fst ` {ks \<in> set m. s_isMain (snd ks)
                   \<or> (\<exists>pk. s_parentKey (snd ks) = Some pk \<and> pk \<notin> set (map fst m))}"
    by (simp add: getTraces_def Some Let_def m_def [symmetric] sr_def [symmetric])
       (simp add: sr_def fold_attach_roots)
  from k obtain s where ks: "(k, s) \<in> set m"
    unfolding smap keys by auto
  have uniq: "s' = s" if "(k, s') \<in> set m" for s'
    using that ks cl(1) by (metis eq_key_imp_eq_value)
  have root_iff: "k \<in> set (rootSessions (getTraces tree))
                  \<longleftrightarrow> isMainKey k \<or> (\<exists>pk. parentKeyOf k = Some pk \<and> pk \<notin> set (map fst m))"
  proof -
    define R where "R = (\<lambda>ks :: string \<times> session_record. s_isMain (snd ks)
                   \<or> (\<exists>pk. s_parentKey (snd ks) = Some pk \<and> pk \<notin> set (map fst m)))"
    have r: "set (rootSessions (getTraces tree)) = fst ` {ks \<in> set m. R ks}"
      unfolding roots R_def ..
    have "k \<in> fst ` {ks \<in> set m. R ks} \<longleftrightarrow> R (k, s)"
    proof
      assume "k \<in> fst ` {ks \<in> set m. R ks}"
      then obtain ks' where "ks' \<in> set m" "R ks'" "fst ks' = k" by blast
      then have "(k, snd ks') \<in> set m" "R (k, snd ks')" by auto
      with uniq show "R (k, s)" by blast
    next
      assume "R (k, s)"
      with ks have "(k, s) \<in> {ks \<in> set m. R ks}" by simp
      then show "k \<in> fst ` {ks \<in> set m. R ks}" by force
    qed
    then have "k \<in> set (rootSessions (getTraces tree)) \<longleftrightarrow> R (k, s)"
      unfolding r .
    with cl(2) [OF ks] show ?thesis by (simp add: R_def)
  qed
  have child: "k \<in> set (childrenOf (getTraces tree) pk)"
    if "\<not> isMainKey k" "parentKeyOf k = Some pk" "pk \<in> set (map fst m)" for pk
  proof -
    from that(3) obtain p where p: "map_of m pk = Some p"
      by (metis map_of_eq_None_iff not_Some_eq set_map)
    from that(1,2) cl(2) [OF ks]
    have "\<not> s_isMain (snd (k, s)) \<and> s_parentKey (snd (k, s)) = Some pk" by simp
    with ks have "(k, s) \<in> set (filter (\<lambda>ks. \<not> s_isMain (snd ks) \<and> s_parentKey (snd ks) = Some pk) m)"
      by simp
    then have "fst (k, s) \<in> fst ` set (filter (\<lambda>ks. \<not> s_isMain (snd ks) \<and> s_parentKey (snd ks) = Some pk) m)"
      by (rule imageI)
    then have "k \<in> set (map fst (filter (\<lambda>ks. \<not> s_isMain (snd ks) \<and> s_parentKey (snd ks) = Some pk) m))"
      by simp
    then show ?thesis
      by (simp add: childrenOf_def smap sr_def fold_attach_children p)
  qed
  have 1: "k \<in> set (rootSessions (getTraces tree))"
    if "endsWith k '':main'' \<or> \<not> includesStr k '':subagent:''"
    using that by (simp add: root_iff isMainKey_def)
  have 2: "let pk = splitColon k ! 0 @ '':'' @ splitColon k ! 1 @ '':main''
           in if pk \<in> set (map fst (sessionMap (getTraces tree)))
              then k \<in> set (childrenOf (getTraces tree) pk)
                   \<and> k \<notin> set (rootSessions (getTraces tree))
              else k \<in> set (rootSessions (getTraces tree))"
    if "includesStr k '':subagent:''" "\<not> endsWith k '':main''" "4 \<le> length (splitColon k)"
  proof -
    from that have nm: "\<not> isMainKey k"
      and pk: "parentKeyOf k = Some (splitColon k ! 0 @ '':'' @ splitColon k ! 1 @ '':main'')"
      by (simp_all add: isMainKey_def parentKeyOf_def Let_def)
    show ?thesis
      unfolding Let_def smap keys
      using child [OF nm pk] nm pk by (simp add: root_iff)
  qed
  from 1 2 show ?thesis by blast
qed

theorem delegation_forest_witness:
  "''agent:x:main'' \<in> set (rootSessions (getTraces (index_tree [''agent:x:subagent:1'', ''agent:x:main''])))
   \<and> ''agent:x:subagent:1''
       \<in> set (childrenOf (getTraces (index_tree [''agent:x:subagent:1'', ''agent:x:main''])) ''agent:x:main'')
   \<and> ''agent:y:subagent:2'' \<in> set (rootSessions (getTraces (index_tree [''agent:y:subagent:2''])))"
proof -
  let ?t = "index_tree [''agent:x:subagent:1'', ''agent:x:main'']"
  let ?u = "index_tree [''agent:y:subagent:2'']"
  have 1: "''agent:x:main'' \<in> set (map fst (sessionMap (getTraces ?t)))" by code_simp
  have 2: "''agent:x:subagent:1'' \<in> set (map fst (sessionMap (getTraces ?t)))" by code_simp
  have 3: "''agent:y:subagent:2'' \<in> set (map fst (sessionMap (getTraces ?u)))" by code_simp
  have a: "endsWith ''agent:x:main'' '':main''" by code_simp
  have b: "includesStr ''agent:x:subagent:1'' '':subagent:'' \<and> \<not> endsWith ''agent:x:subagent:1'' '':main''
           \<and> 4 \<le> length (splitColon ''agent:x:subagent:1'')" by code_simp
  have b': "splitColon ''agent:x:subagent:1'' ! 0 @ '':'' @ splitColon ''agent:x:subagent:1'' ! 1 @ '':main''
            = ''agent:x:main''" by code_simp
  have c: "includesStr ''agent:y:subagent:2'' '':subagent:'' \<and> \<not> endsWith ''agent:y:subagent:2'' '':main''
           \<and> 4 \<le> length (splitColon ''agent:y:subagent:2'')" by code_simp
  have c': "splitColon ''agent:y:subagent:2'' ! 0 @ '':'' @ splitColon ''agent:y:subagent:2'' ! 1 @ '':main''
            = ''agent:y:main''" by code_simp
  have c'': "''agent:y:main'' \<notin> set (map fst (sessionMap (getTraces ?u)))" by code_simp
  from delegation_forest [OF 1] a
  have r1: "''agent:x:main'' \<in> set (rootSessions (getTraces ?t))" by blast
  from delegation_forest [OF 2] b
  have "let pk = splitColon ''agent:x:subagent:1'' ! 0 @ '':'' @ splitColon ''agent:x:subagent:1'' ! 1 @ '':main''
        in if pk \<in> set (map fst (sessionMap (getTraces ?t)))
           then ''agent:x:subagent:1'' \<in> set (childrenOf (getTraces ?t) pk)
                \<and> ''agent:x:subagent:1'' \<notin> set (rootSessions (getTraces ?t))
           else ''agent:x:subagent:1'' \<in> set (rootSessions (getTraces ?t))"
    by blast
  then have r2: "''agent:x:subagent:1'' \<in> set (childrenOf (getTraces ?t) ''agent:x:main'')"
    unfolding Let_def b' using 1 by (simp only: if_True)
  from delegation_forest [OF 3] c
  have "let pk = splitColon ''agent:y:subagent:2'' ! 0 @ '':'' @ splitColon ''agent:y:subagent:2'' ! 1 @ '':main''
        in if pk \<in> set (map fst (sessionMap (getTraces ?u)))
           then ''agent:y:subagent:2'' \<in> set (childrenOf (getTraces ?u) pk)
                \<and> ''agent:y:subagent:2'' \<notin> set (rootSessions (getTraces ?u))
           else ''agent:y:subagent:2'' \<in> set (rootSessions (getTraces ?u))"
    by blast
  then have r3: "''agent:y:subagent:2'' \<in> set (rootSessions (getTraces ?u))"
    unfolding Let_def c' using c'' by (simp only: if_False)
  from r1 r2 r3 show ?thesis by blast
qed

section \<open>The invariant of the collector's maps\<close>

text \<open>
  The hypotheses on the maps that the theorems on \<open>loadConfig\<close> make hold of a new
  collector and are kept by every load and by every state update of a configured agent.
\<close>

lemma wellFormed_new: "wellFormed new_collector"
  by (simp add: wellFormed_def new_collector_def)

lemma addAgent_agents_keys:
  "fst ` set (agents (fold addAgent as c)) = fst ` set (agents c) \<union> a_id ` set as"
proof (induction as arbitrary: c)
  case Nil
  show ?case by simp
next
  case (Cons a as)
  have "agents (addAgent a c) = AList.update (a_id a) a (agents c)"
    by (simp add: addAgent_def Let_def)
  then show ?case
    by (auto simp add: Cons.IH dom_update)
qed

lemma removeStep_agents [simp]: "agents (fold removeStep L c) = agents c"
  by (induction L arbitrary: c)
     (simp_all add: removeStep_def clearTimeout_def Let_def split: option.splits)

lemma loadBody_agents_keys: "a_id ` set (cfg_agents cfg) \<subseteq> fst ` set (agents (loadBody cfg c))"
  by (simp add: loadBody_def Let_def addAgent_agents_keys)

lemma wellFormed_loadBody:
  assumes "wellFormed c"
  shows "wellFormed (loadBody cfg c)"
proof -
  let ?as = "cfg_agents cfg"
  let ?Q = "\<lambda>k. k \<in> a_id ` set ?as \<or> k \<notin> fst ` set (agents c)"
  define st0 where "st0 = filter (\<lambda>p. ?Q (fst p)) (state c)"
  from assms have dist: "distinct (map fst (state c))"
    and gdist: "distinct (map fst (gateways c))"
    and sub: "list_all (\<lambda>p. fst p \<in> fst ` set (agents c)) (state c)"
    by (simp_all add: wellFormed_def)
  have st: "state (loadBody cfg c) = state (fold addAgent ?as (c\<lparr> state := st0 \<rparr>))"
    unfolding st0_def by (rule loadBody_state)
  have d0: "distinct (map fst (state (c\<lparr> state := st0 \<rparr>)))"
    using dist by (simp add: st0_def distinct_map_filter)
  have k0: "fst ` set (state (c\<lparr> state := st0 \<rparr>)) \<subseteq> a_id ` set ?as"
    using sub by (auto simp add: st0_def list_all_iff)
  have 1: "distinct (map fst (state (loadBody cfg c)))"
    unfolding st using d0 by (rule fold_addAgent_state_distinct)
  have "fst ` set (state (loadBody cfg c)) = a_id ` set ?as"
    unfolding st fold_addAgent_state_keys using k0 by blast
  with loadBody_agents_keys [of cfg c]
  have "fst ` set (state (loadBody cfg c)) \<subseteq> fst ` set (agents (loadBody cfg c))"
    by (simp only:)
  then have "\<forall>p \<in> set (state (loadBody cfg c)). fst p \<in> fst ` set (agents (loadBody cfg c))"
    by blast
  then have 2: "list_all (\<lambda>p. fst p \<in> fst ` set (agents (loadBody cfg c))) (state (loadBody cfg c))"
    by (simp only: list_all_iff)
  from loadBody_gateways [OF gdist, of cfg]
  have 3: "distinct (map fst (gateways (loadBody cfg c)))"
    by (auto simp add: distinct_map_filter)
  from 1 2 3 show ?thesis by (simp add: wellFormed_def)
qed

lemma wellFormed_updateState:
  assumes "wellFormed c" and "i \<in> fst ` set (agents c)"
  shows "wellFormed (updateState i p c)"
proof -
  let ?new = "merge_obj (case map_of (state c) i of Some s \<Rightarrow> s | None \<Rightarrow> []) p"
  have a: "agents (updateState i p c) = agents c"
    by (simp add: updateState_def Let_def)
  have s: "state (updateState i p c) = AList.update i ?new (state c)"
    by (simp add: updateState_def Let_def)
  from assms(1) have dist: "distinct (map fst (state c))"
    and gdist: "distinct (map fst (gateways c))"
    and sub: "\<forall>q \<in> set (state c). fst q \<in> fst ` set (agents c)"
    by (simp_all add: wellFormed_def list_all_iff)
  have 1: "distinct (map fst (state (updateState i p c)))"
    unfolding s using dist by (rule distinct_update)
  have 2: "\<forall>q \<in> set (state (updateState i p c)). fst q \<in> fst ` set (agents (updateState i p c))"
  proof
    fix q assume "q \<in> set (state (updateState i p c))"
    then have "q = (i, ?new) \<or> q \<in> set (state c)"
      unfolding s by (rule set_update_cases)
    then show "fst q \<in> fst ` set (agents (updateState i p c))"
      unfolding a using assms(2) sub by (elim disjE) simp_all
  qed
  from 1 2 gdist show ?thesis
    by (simp add: wellFormed_def list_all_iff)
qed

end
